theory Spec2Isabelle
  imports Main "HOL-Library.Word"
begin

section \<open>The Coffee Corner: form validation of \<open>js/script.js\<close>\<close>

text \<open>
  The script validates two forms (contact, catering enquiry) in their submit handlers and
  reports through \<open>showNotification\<close>. The embedding follows the handlers line by line:
  reading the fields from the document, the rule checks that push messages to \<open>errors\<close>
  and clear \<open>isValid\<close>, and the two branches after validation.
\<close>

subsection \<open>JavaScript strings\<close>

text \<open>
  A JavaScript string is a sequence of UTF-16 code units; \<open>length\<close>, \<open>trim\<close> and a
  regular expression without the \<open>u\<close> flag all work on code units. \<open>js\<close> writes an
  ASCII literal as such a string.
\<close>

type_synonym code_unit = "16 word"
type_synonym jsstring = "code_unit list"

definition js :: "string \<Rightarrow> jsstring" where
  "js s = map of_char s"

text \<open>
  WhiteSpace and LineTerminator of ECMAScript: the characters removed by \<open>trim\<close>,
  skipped by \<open>parseInt\<close> and matched by \<open>\s\<close>.
\<close>

definition isWhiteSpace :: "code_unit \<Rightarrow> bool" where
  "isWhiteSpace c =
     (c = 0x9 \<or> c = 0xA \<or> c = 0xB \<or> c = 0xC \<or> c = 0xD \<or> c = 0x20 \<or> c = 0xA0 \<or>
      c = 0x1680 \<or> (0x2000 \<le> c \<and> c \<le> 0x200A) \<or> c = 0x2028 \<or> c = 0x2029 \<or>
      c = 0x202F \<or> c = 0x205F \<or> c = 0x3000 \<or> c = 0xFEFF)"

definition isDigit :: "code_unit \<Rightarrow> bool" where
  "isDigit c = (0x30 \<le> c \<and> c \<le> 0x39)"

definition trim :: "jsstring \<Rightarrow> jsstring" where
  "trim s = rev (dropWhile isWhiteSpace (rev (dropWhile isWhiteSpace s)))"

subsection \<open>Regular expressions\<close>

text \<open>
  Both patterns of the script have the form \<open>^ t1 t2 ... tn $\<close> where every term is a
  character class with a quantifier. \<open>test\<close> follows the backtracking matcher: a term
  takes as many characters of its class as it may and gives them back one by one while
  the rest of the pattern fails. With \<open>^\<close> the match starts at the first character
  only, and with \<open>$\<close> (no \<open>m\<close> flag) it ends at the end of the input.
\<close>

datatype quantifier = Once | OneOrMore | Between nat nat

type_synonym regex_term = "(code_unit \<Rightarrow> bool) \<times> quantifier"

fun q_min :: "quantifier \<Rightarrow> nat" where
  "q_min Once = 1"
| "q_min OneOrMore = 1"
| "q_min (Between lo hi) = lo"

fun q_max :: "quantifier \<Rightarrow> nat \<Rightarrow> nat" where
  "q_max Once avail = min 1 avail"
| "q_max OneOrMore avail = avail"
| "q_max (Between lo hi) avail = min hi avail"

fun test :: "regex_term list \<Rightarrow> jsstring \<Rightarrow> bool" where
  "test [] s = (s = [])"
| "test ((cls, q) # ts) s =
     (let avail = length (takeWhile cls s)
      in list_ex (\<lambda>k. test ts (drop k s)) (rev [q_min q ..< Suc (q_max q avail)]))"

text \<open>\<open>/^[^\s@]+@[^\s@]+\.[^\s@]+$/\<close>\<close>

definition notSpaceAt :: "code_unit \<Rightarrow> bool" where
  "notSpaceAt c = (\<not> isWhiteSpace c \<and> c \<noteq> 0x40)"

definition emailPattern :: "regex_term list" where
  "emailPattern =
     [(notSpaceAt, OneOrMore), (\<lambda>c. c = 0x40, Once), (notSpaceAt, OneOrMore),
      (\<lambda>c. c = 0x2E, Once), (notSpaceAt, OneOrMore)]"

text \<open>\<open>/^[\d\s\-\(\)\+]{10,15}$/\<close>\<close>

definition phoneChar :: "code_unit \<Rightarrow> bool" where
  "phoneChar c =
     (isDigit c \<or> isWhiteSpace c \<or> c = 0x2D \<or> c = 0x28 \<or> c = 0x29 \<or> c = 0x2B)"

definition phonePattern :: "regex_term list" where
  "phonePattern = [(phoneChar, Between 10 15)]"

subsection \<open>\<open>parseInt(string, 10)\<close>\<close>

text \<open>
  Leading white space is skipped, one sign is read, then the longest run of decimal
  digits; no digit gives \<open>NaN\<close>, here \<open>None\<close>. The result is kept as an unbounded
  integer: a Number is exact up to \<open>2^53\<close> and rounding beyond is monotone, which keeps
  every comparison with 10 and 500 below.
\<close>

definition digitsValue :: "jsstring \<Rightarrow> int" where
  "digitsValue ds = foldl (\<lambda>acc c. 10 * acc + (uint c - 0x30)) 0 ds"

definition parseInt10 :: "jsstring \<Rightarrow> int option" where
  "parseInt10 input =
     (let s = dropWhile isWhiteSpace input;
          neg = (s \<noteq> [] \<and> hd s = 0x2D);
          s' = (if s \<noteq> [] \<and> (hd s = 0x2B \<or> hd s = 0x2D) then tl s else s);
          z = takeWhile isDigit s'
      in if z = [] then None
         else Some (if neg then - digitsValue z else digitsValue z))"

subsection \<open>Numbers as strings\<close>

text \<open>
  \<open>String(n)\<close> of an integer \<open>n\<close> below \<open>10^21\<close> in size: its decimal digits without
  leading zeros, after a minus sign when it is negative.
\<close>

definition digit :: "nat \<Rightarrow> code_unit" where
  "digit d = of_nat (0x30 + d)"

fun decimal :: "nat \<Rightarrow> jsstring" where
  "decimal n = (if n < 10 then [digit n] else decimal (n div 10) @ [digit (n mod 10)])"

declare decimal.simps [simp del]

definition numberToString :: "int \<Rightarrow> jsstring" where
  "numberToString n = (if n < 0 then 0x2D # decimal (nat (- n)) else decimal (nat n))"

subsection \<open>\<open>encodeURIComponent\<close>\<close>

text \<open>
  Letters, digits and \<open>- _ . ! ~ * ' ( )\<close> are kept; every other code point is written
  as the \<open>%XX\<close> of its UTF-8 bytes. A surrogate without its partner throws URIError.
\<close>

datatype js_error = TypeError | URIError

definition isUnescaped :: "code_unit \<Rightarrow> bool" where
  "isUnescaped c =
     ((0x41 \<le> c \<and> c \<le> 0x5A) \<or> (0x61 \<le> c \<and> c \<le> 0x7A) \<or> isDigit c \<or>
      c = 0x2D \<or> c = 0x5F \<or> c = 0x2E \<or> c = 0x21 \<or> c = 0x7E \<or> c = 0x2A \<or>
      c = 0x27 \<or> c = 0x28 \<or> c = 0x29)"

definition isLeadSurrogate :: "code_unit \<Rightarrow> bool" where
  "isLeadSurrogate c = (0xD800 \<le> c \<and> c \<le> 0xDBFF)"

definition isTrailSurrogate :: "code_unit \<Rightarrow> bool" where
  "isTrailSurrogate c = (0xDC00 \<le> c \<and> c \<le> 0xDFFF)"

definition hexDigit :: "nat \<Rightarrow> code_unit" where
  "hexDigit n = (if n < 10 then of_nat (0x30 + n) else of_nat (0x41 + (n - 10)))"

definition percentByte :: "nat \<Rightarrow> jsstring" where
  "percentByte b = [0x25, hexDigit (b div 16), hexDigit (b mod 16)]"

definition utf8 :: "nat \<Rightarrow> nat list" where
  "utf8 cp =
     (if cp < 0x80 then [cp]
      else if cp < 0x800 then [0xC0 + cp div 64, 0x80 + cp mod 64]
      else if cp < 0x10000 then
        [0xE0 + cp div 4096, 0x80 + (cp div 64) mod 64, 0x80 + cp mod 64]
      else
        [0xF0 + cp div 262144, 0x80 + (cp div 4096) mod 64, 0x80 + (cp div 64) mod 64,
         0x80 + cp mod 64])"

definition escaped :: "nat \<Rightarrow> jsstring" where
  "escaped cp = concat (map percentByte (utf8 cp))"

definition prepend :: "jsstring \<Rightarrow> js_error + jsstring \<Rightarrow> js_error + jsstring" where
  "prepend p r = (case r of Inl e \<Rightarrow> Inl e | Inr t \<Rightarrow> Inr (p @ t))"

fun encodeURIComponent :: "jsstring \<Rightarrow> js_error + jsstring" where
  "encodeURIComponent [] = Inr []"
| "encodeURIComponent (c # cs) =
     (if isUnescaped c then prepend [c] (encodeURIComponent cs)
      else if isTrailSurrogate c then Inl URIError
      else if isLeadSurrogate c then
        (case cs of
           [] \<Rightarrow> Inl URIError
         | d # ds \<Rightarrow>
             if isTrailSurrogate d then
               prepend (escaped ((unat c - 0xD800) * 0x400 + (unat d - 0xDC00) + 0x10000))
                 (encodeURIComponent ds)
             else Inl URIError)
      else prepend (escaped (unat c)) (encodeURIComponent cs))"

subsection \<open>Reading the fields\<close>

text \<open>
  \<open>document.getElementById\<close> gives an element or \<open>null\<close> (\<open>None\<close>). The \<open>value\<close> of
  a form control (\<open>input\<close>, \<open>select\<close>, \<open>textarea\<close>) is a string and an object without
  the property gives \<open>undefined\<close>; but the \<open>value\<close> of an \<open>li\<close> element is a Number,
  a signed integer of 32 bits. (The \<open>value\<close> of a \<open>progress\<close> or \<open>meter\<close> element is a
  Number as well, which may have a fraction; \<open>?.trim()\<close> and \<open>||\<close> treat it as they
  treat an integer, and its digits are not modelled.)

  Every operator of the read expression
  \<open>(document.getElementById(id) || {}).value?.trim() || ''\<close> is a function of its own, and
  those that throw in JavaScript (a property of \<open>null\<close>, a method that the value does not
  have) return TypeError. Only a string has the method \<open>trim\<close>: \<open>?.\<close> skips the call
  for \<open>undefined\<close> and \<open>null\<close>, not for a Number, whose \<open>trim\<close> is \<open>undefined\<close>.
\<close>

datatype jsval = Undefined | Str jsstring | Num "32 word"

record element =
  el_value :: jsval

type_synonym document = "string \<Rightarrow> element option"

definition getElementById :: "document \<Rightarrow> string \<Rightarrow> element option" where
  "getElementById doc ident = doc ident"

definition orEmptyObject :: "element option \<Rightarrow> element option" where
  "orEmptyObject x = (case x of None \<Rightarrow> Some \<lparr>el_value = Undefined\<rparr> | Some e \<Rightarrow> Some e)"

definition getValue :: "element option \<Rightarrow> js_error + jsval" where
  "getValue x = (case x of None \<Rightarrow> Inl TypeError | Some e \<Rightarrow> Inr (el_value e))"

definition andThen :: "js_error + 'a \<Rightarrow> ('a \<Rightarrow> js_error + 'b) \<Rightarrow> js_error + 'b" where
  "andThen r f = (case r of Inl e \<Rightarrow> Inl e | Inr x \<Rightarrow> f x)"

text \<open>\<open>v.trim()\<close>, a string when it returns\<close>

definition callTrim :: "jsval \<Rightarrow> js_error + jsstring" where
  "callTrim v =
     (case v of
        Undefined \<Rightarrow> Inl TypeError
      | Str s \<Rightarrow> Inr (trim s)
      | Num n \<Rightarrow> Inl TypeError)"

text \<open>\<open>v?.trim()\<close>: \<open>undefined\<close> (\<open>None\<close>) or a string\<close>

definition optionalTrim :: "jsval \<Rightarrow> js_error + jsstring option" where
  "optionalTrim v =
     (if v = Undefined then Inr None else andThen (callTrim v) (\<lambda>s. Inr (Some s)))"

text \<open>\<open>x || d\<close> where \<open>x\<close> is \<open>undefined\<close> or a string\<close>

definition orString :: "jsstring option \<Rightarrow> jsstring \<Rightarrow> jsstring" where
  "orString x d = (case x of None \<Rightarrow> d | Some s \<Rightarrow> if s = [] then d else s)"

text \<open>
  \<open>v || d\<close> on a value of any kind. What counts as false: \<open>undefined\<close>, the empty
  string and the number 0; \<open>v || d\<close> is \<open>d\<close> for such a \<open>v\<close> and \<open>v\<close> itself
  otherwise, a Number staying a Number.
\<close>

definition falsy :: "jsval \<Rightarrow> bool" where
  "falsy v = (v = Undefined \<or> v = Str [] \<or> v = Num 0)"

definition orValue :: "jsval \<Rightarrow> jsval \<Rightarrow> jsval" where
  "orValue v d = (if falsy v then d else v)"

text \<open>
  \<open>String(v)\<close>, as a template literal, \<open>+\<close> with a string and \<open>parseInt\<close> apply it.
\<close>

definition toString :: "jsval \<Rightarrow> jsstring" where
  "toString v =
     (case v of
        Undefined \<Rightarrow> js ''undefined''
      | Str s \<Rightarrow> s
      | Num n \<Rightarrow> numberToString (sint n))"

text \<open>\<open>(document.getElementById(id) || {}).value?.trim() || ''\<close>, a string\<close>

definition readTrimmed :: "document \<Rightarrow> string \<Rightarrow> js_error + jsstring" where
  "readTrimmed doc ident =
     andThen (getValue (orEmptyObject (getElementById doc ident))) (\<lambda>v.
     andThen (optionalTrim v) (\<lambda>t. Inr (orString t [])))"

text \<open>\<open>(document.getElementById(id) || {}).value || d\<close>, a string or a Number\<close>

definition readValue :: "document \<Rightarrow> string \<Rightarrow> jsstring \<Rightarrow> js_error + jsval" where
  "readValue doc ident d =
     andThen (getValue (orEmptyObject (getElementById doc ident))) (\<lambda>v. Inr (orValue v (Str d)))"

subsection \<open>Validation results and notifications\<close>

record validation =
  isValid :: bool
  errors :: "jsstring list"

definition start :: validation where
  "start = \<lparr>isValid = True, errors = []\<rparr>"

text \<open>\<open>if (c) { errors.push(m); isValid = false; }\<close>\<close>

definition failIf :: "bool \<Rightarrow> jsstring \<Rightarrow> validation \<Rightarrow> validation" where
  "failIf c m v = (if c then \<lparr>isValid = False, errors = errors v @ [m]\<rparr> else v)"

text \<open>\<open>if (c) { errors.push(m); }\<close>\<close>

definition pushIf :: "bool \<Rightarrow> jsstring \<Rightarrow> validation \<Rightarrow> validation" where
  "pushIf c m v = (if c then v\<lparr>errors := errors v @ [m]\<rparr> else v)"

text \<open>
  The summary of a confirmed catering enquiry lists the values that the handler puts into
  its HTML text; the text itself and the locale's formatting of the date and of the total
  are not embedded.
\<close>

record catering_summary =
  sum_name :: jsstring
  sum_eventType :: jsval
  sum_guests :: int
  sum_date :: "int option"
  sum_costPerPerson :: int
  sum_totalCost :: int
  sum_email :: jsstring
  sum_phone :: jsstring
  sum_specialRequests :: bool

datatype message = Text jsstring | CateringSummary catering_summary

text \<open>
  The argument of \<open>showNotification\<close>: \<open>type\<close>, \<open>duration\<close> and \<open>list\<close> may be left
  out (\<open>None\<close>) and then take the defaults \<open>'success'\<close>, \<open>5000\<close> and \<open>null\<close>.
\<close>

record options =
  opt_title :: jsstring
  opt_message :: message
  opt_type :: "jsstring option"
  opt_list :: "jsstring list option"
  opt_duration :: "int option"

datatype effect =
    PreventDefault
  | ShowNotification options
  | SetLocationHref jsstring
  | FormReset

definition bullet :: jsstring where
  "bullet = [0x2022, 0x20]"

definition validationError :: "jsstring list \<Rightarrow> options" where
  "validationError errs =
     \<lparr>opt_title = 0x274C # js '' Form Validation Error'',
      opt_message = Text (js ''Please correct the following errors:''),
      opt_type = Some (js ''error''),
      opt_list = Some errs,
      opt_duration = Some 0\<rparr>"

subsection \<open>The contact form (lines 117 to 157)\<close>

record contact_fields =
  c_name :: jsstring
  c_email :: jsstring
  c_phone :: jsstring
  c_location :: jsval
  c_subject :: jsval
  c_message :: jsstring

definition readContact :: "document \<Rightarrow> js_error + contact_fields" where
  "readContact doc =
     andThen (readTrimmed doc ''contact-name'') (\<lambda>name.
     andThen (readTrimmed doc ''contact-email'') (\<lambda>email.
     andThen (readTrimmed doc ''contact-phone'') (\<lambda>phone.
     andThen (readValue doc ''contact-location'' []) (\<lambda>location.
     andThen (readValue doc ''contact-subject'' []) (\<lambda>subject.
     andThen (readTrimmed doc ''contact-message'') (\<lambda>message.
     Inr \<lparr>c_name = name, c_email = email, c_phone = phone, c_location = location,
          c_subject = subject, c_message = message\<rparr>))))))"

definition msgName :: jsstring where
  "msgName = bullet @ js ''Name must be at least 2 characters long''"

definition msgEmail :: jsstring where
  "msgEmail = bullet @ js ''Please enter a valid email address''"

definition msgContactPhone :: jsstring where
  "msgContactPhone = bullet @ js ''Phone number must be 10-15 digits''"

definition msgSubject :: jsstring where
  "msgSubject = bullet @ js ''Please select a subject for your message''"

definition msgMessage :: jsstring where
  "msgMessage = bullet @ js ''Message must be at least 10 characters long''"

definition contactValidate :: "contact_fields \<Rightarrow> validation" where
  "contactValidate f =
     (let v1 = failIf (length (c_name f) < 2) msgName start;
          v2 = failIf (\<not> test emailPattern (c_email f)) msgEmail v1;
          v3 = (if c_phone f \<noteq> []
                then failIf (\<not> test phonePattern (c_phone f)) msgContactPhone v2
                else v2);
          v4 = failIf (falsy (c_subject f)) msgSubject v3
      in failIf (length (c_message f) < 10) msgMessage v4)"

text \<open>\<open>x || d\<close> on strings\<close>

definition orElse :: "jsstring \<Rightarrow> jsstring \<Rightarrow> jsstring" where
  "orElse x d = (if x = [] then d else x)"

definition emailBody :: "contact_fields \<Rightarrow> jsstring" where
  "emailBody f =
     js ''Name: '' @ c_name f @ [0xA] @
     js ''Email: '' @ c_email f @ [0xA] @
     js ''Phone: '' @ orElse (c_phone f) (js ''Not provided'') @ [0xA] @
     js ''Preferred Location: '' @
       toString (orValue (c_location f) (Str (js ''Not specified''))) @ [0xA] @
     js ''Subject: '' @ toString (c_subject f) @ [0xA, 0xA] @
     js ''Message:'' @ [0xA] @ c_message f"

definition recipient :: jsstring where
  "recipient = js ''info@coffeecorner.co.za''"

definition mailtoLink :: "contact_fields \<Rightarrow> js_error + jsstring" where
  "mailtoLink f =
     andThen (encodeURIComponent (js ''Contact Form: '' @ toString (c_subject f))) (\<lambda>subj.
     andThen (encodeURIComponent (emailBody f)) (\<lambda>body.
     Inr (js ''mailto:'' @ recipient @ js ''?subject='' @ subj @ js ''&body='' @ body)))"

definition contactSuccess :: "contact_fields \<Rightarrow> options" where
  "contactSuccess f =
     \<lparr>opt_title = 0x2713 # js '' Message Ready to Send'',
      opt_message = Text (js ''Thank you for your message, '' @ c_name f @
        js ''! Your email client will open to send the message. We will respond within 24 hours.''),
      opt_type = Some (js ''success''),
      opt_list = None,
      opt_duration = None\<rparr>"

definition contactSubmit :: "document \<Rightarrow> js_error + effect list" where
  "contactSubmit doc =
     andThen (readContact doc) (\<lambda>f.
       let v = contactValidate f
       in if \<not> isValid v then
            Inr [PreventDefault, ShowNotification (validationError (errors v))]
          else
            andThen (mailtoLink f) (\<lambda>link.
              Inr [PreventDefault, SetLocationHref link,
                   ShowNotification (contactSuccess f), FormReset]))"

subsection \<open>The catering enquiry form (lines 163 to 240)\<close>

text \<open>
  What the handler takes from the clock and from \<open>Date\<close>: the time value of
  \<open>new Date()\<close> in milliseconds, what \<open>setHours(0,0,0,0)\<close> makes of a time value (the
  start of the local day) and the time value of \<open>new Date(string)\<close>, \<open>None\<close> for an
  invalid date (\<open>NaN\<close>).
\<close>

record js_env =
  now :: int
  setHours0 :: "int \<Rightarrow> int"
  dateParse :: "jsstring \<Rightarrow> int option"

record catering_fields =
  k_name :: jsstring
  k_email :: jsstring
  k_phone :: jsstring
  k_eventType :: jsval
  k_guests :: int
  k_date :: jsval
  k_specialRequests :: jsstring

text \<open>\<open>n || 0\<close> on the Number of \<open>parseInt\<close>\<close>

definition orZero :: "int option \<Rightarrow> int" where
  "orZero n = (case n of None \<Rightarrow> 0 | Some k \<Rightarrow> if k = 0 then 0 else k)"

definition readGuests :: "document \<Rightarrow> js_error + int" where
  "readGuests doc =
     andThen (readValue doc ''guests'' (js ''0'')) (\<lambda>v.
       Inr (orZero (parseInt10 (toString v))))"

definition readCatering :: "document \<Rightarrow> js_error + catering_fields" where
  "readCatering doc =
     andThen (readTrimmed doc ''name'') (\<lambda>name.
     andThen (readTrimmed doc ''email'') (\<lambda>email.
     andThen (readTrimmed doc ''phone'') (\<lambda>phone.
     andThen (readValue doc ''event-type'' []) (\<lambda>eventType.
     andThen (readGuests doc) (\<lambda>guests.
     andThen (readValue doc ''date'' []) (\<lambda>date.
     andThen (readTrimmed doc ''message'') (\<lambda>specialRequests.
     Inr \<lparr>k_name = name, k_email = email, k_phone = phone, k_eventType = eventType,
          k_guests = guests, k_date = date, k_specialRequests = specialRequests\<rparr>)))))))"

definition msgCateringPhone :: jsstring where
  "msgCateringPhone = bullet @ js ''Please enter a valid phone number (10-15 digits)''"

definition msgEventType :: jsstring where
  "msgEventType = bullet @ js ''Please select an event type''"

definition msgGuests :: jsstring where
  "msgGuests = bullet @ js ''Number of guests must be between 10 and 500''"

definition msgDate :: jsstring where
  "msgDate = bullet @ js ''Please select a preferred date for your event''"

definition msgFuture :: jsstring where
  "msgFuture = bullet @ js ''Please select a future date for your event''"

definition msgAdvance :: jsstring where
  "msgAdvance = bullet @ js ''We recommend booking at least 7 days in advance''"

text \<open>
  The time value of \<open>new Date(date)\<close>: a string is parsed, a Number is the time value
  itself, and \<open>undefined\<close> gives an invalid date.
\<close>

definition newDate :: "js_env \<Rightarrow> jsval \<Rightarrow> int option" where
  "newDate env date =
     (case date of
        Undefined \<Rightarrow> None
      | Str s \<Rightarrow> dateParse env s
      | Num n \<Rightarrow> Some (sint n))"

text \<open>\<open>selectedDate < today\<close>: a comparison with \<open>NaN\<close> is false.\<close>

definition dateLess :: "int option \<Rightarrow> int \<Rightarrow> bool" where
  "dateLess d t = (case d of None \<Rightarrow> False | Some x \<Rightarrow> x < t)"

text \<open>
  \<open>Math.ceil((selectedDate - today) / (1000 * 60 * 60 * 24))\<close>, \<open>None\<close> for \<open>NaN\<close>. The
  difference of two time values is an integer below \<open>2^53\<close> and the quotient is below
  \<open>2^27\<close>, where no number with a fraction of \<open>1/86400000\<close> or more rounds to an integer:
  the ceiling of the Number is the ceiling of the exact quotient.
\<close>

definition daysUntil :: "int option \<Rightarrow> int \<Rightarrow> int option" where
  "daysUntil d t = (case d of None \<Rightarrow> None | Some x \<Rightarrow> Some (- ((t - x) div 86400000)))"

text \<open>\<open>daysUntilEvent < 7\<close>\<close>

definition lessThan7 :: "int option \<Rightarrow> bool" where
  "lessThan7 n = (case n of None \<Rightarrow> False | Some k \<Rightarrow> k < 7)"

definition checkDate :: "js_env \<Rightarrow> jsval \<Rightarrow> validation \<Rightarrow> validation" where
  "checkDate env date v =
     (if falsy date then failIf True msgDate v
      else
        let selectedDate = newDate env date;
            today = setHours0 env (now env);
            v' = failIf (dateLess selectedDate today) msgFuture v;
            daysUntilEvent = daysUntil selectedDate today
        in pushIf (lessThan7 daysUntilEvent) msgAdvance v')"

definition cateringValidate :: "js_env \<Rightarrow> catering_fields \<Rightarrow> validation" where
  "cateringValidate env f =
     (let v1 = failIf (length (k_name f) < 2) msgName start;
          v2 = failIf (\<not> test emailPattern (k_email f)) msgEmail v1;
          v3 = failIf (\<not> test phonePattern (k_phone f)) msgCateringPhone v2;
          v4 = failIf (falsy (k_eventType f)) msgEventType v3;
          v5 = failIf (k_guests f = 0 \<or> k_guests f < 10 \<or> k_guests f > 500) msgGuests v4
      in checkDate env (k_date f) v5)"

definition costPerPerson :: "jsval \<Rightarrow> int" where
  "costPerPerson eventType =
     (if eventType = Str (js ''wedding'') then 250
      else if eventType = Str (js ''corporate'') then 180
      else 150)"

definition totalCost :: "catering_fields \<Rightarrow> int" where
  "totalCost f = k_guests f * costPerPerson (k_eventType f)"

definition cateringSuccess :: "js_env \<Rightarrow> catering_fields \<Rightarrow> options" where
  "cateringSuccess env f =
     \<lparr>opt_title = 0x2713 # js '' Catering Enquiry Confirmed'',
      opt_message = CateringSummary
        \<lparr>sum_name = k_name f, sum_eventType = k_eventType f, sum_guests = k_guests f,
         sum_date = newDate env (k_date f),
         sum_costPerPerson = costPerPerson (k_eventType f), sum_totalCost = totalCost f,
         sum_email = k_email f, sum_phone = k_phone f,
         sum_specialRequests = (k_specialRequests f \<noteq> [])\<rparr>,
      opt_type = Some (js ''success''),
      opt_list = None,
      opt_duration = Some 10000\<rparr>"

text \<open>
  \<open>eventType.charAt(0)\<close> in the text of the summary (line 210): only a string has the
  method.
\<close>

definition callCharAt0 :: "jsval \<Rightarrow> js_error + jsstring" where
  "callCharAt0 v =
     (case v of
        Undefined \<Rightarrow> Inl TypeError
      | Str s \<Rightarrow> Inr (take 1 s)
      | Num n \<Rightarrow> Inl TypeError)"

definition cateringSubmit :: "js_env \<Rightarrow> document \<Rightarrow> js_error + effect list" where
  "cateringSubmit env doc =
     andThen (readCatering doc) (\<lambda>f.
       let v = cateringValidate env f
       in if \<not> isValid v then
            Inr [PreventDefault, ShowNotification (validationError (errors v))]
          else
            andThen (callCharAt0 (k_eventType f)) (\<lambda>initial.
              Inr [PreventDefault, ShowNotification (cateringSuccess env f), FormReset]))"

subsection \<open>\<open>showNotification\<close> (lines 38 to 95) and its timers\<close>

text \<open>
  The page, as far as the notifications go: the container element that
  \<open>document.querySelector('.notification-container')\<close> finds in the body, the children
  of every container element made so far, the container that the closures of a
  notification hold (\<open>home\<close>), the timers that are set and the clock in milliseconds.
  Elements are numbered as they are created. The class \<open>show\<close>, set in an animation
  frame and removed by the close button, only drives the transitions of the style sheet
  and is not part of the state.

  A timer set with a delay runs when the clock reaches its time, the earliest first and
  timers of one time in the order in which they were set. \<open>setTimeout\<close> takes its delay
  as a signed integer of 32 bits: the platform reduces the number modulo \<open>2^32\<close> into the
  range from \<open>-2^31\<close> to \<open>2^31 - 1\<close>, and a negative delay counts as 0. So a delay
  from \<open>2^31\<close> ms (about 25 days) up to \<open>2^32\<close> ms runs at once.
\<close>

datatype task = AutoDismiss nat | Removal nat

fun notif :: "task \<Rightarrow> nat" where
  "notif (AutoDismiss n) = n"
| "notif (Removal n) = n"

record page =
  attached :: "nat option"
  children :: "nat \<Rightarrow> nat list"
  home :: "nat \<Rightarrow> nat"
  timers :: "(int \<times> task) list"
  clock :: int
  fresh :: nat

datatype dom_error = NotFoundError

definition toInt32 :: "int \<Rightarrow> int" where
  "toInt32 x = (x + 2147483648) mod 4294967296 - 2147483648"

definition timerDelay :: "int \<Rightarrow> int" where
  "timerDelay delay = max 0 (toInt32 delay)"

definition setTimeout :: "task \<Rightarrow> int \<Rightarrow> page \<Rightarrow> page" where
  "setTimeout k delay p = p\<lparr>timers := timers p @ [(clock p + timerDelay delay, k)]\<rparr>"

text \<open>The listener of the close button (lines 70 to 78): the removal follows in 300 ms.\<close>

definition closeClick :: "nat \<Rightarrow> page \<Rightarrow> page" where
  "closeClick n p = setTimeout (Removal n) 300 p"

text \<open>Lines 42 to 47: the container of the body, made when there is none.\<close>

definition container :: "page \<Rightarrow> nat \<times> page" where
  "container p =
     (case attached p of
        Some c \<Rightarrow> (c, p)
      | None \<Rightarrow>
          (fresh p,
           p\<lparr>attached := Some (fresh p), children := (children p)(fresh p := []),
             fresh := Suc (fresh p)\<rparr>))"

text \<open>The defaults of \<open>type\<close> and \<open>duration\<close> (line 39).\<close>

definition typeOf :: "options \<Rightarrow> jsstring" where
  "typeOf opts = (case opt_type opts of None \<Rightarrow> js ''success'' | Some t \<Rightarrow> t)"

definition durationOf :: "options \<Rightarrow> int" where
  "durationOf opts = (case opt_duration opts of None \<Rightarrow> 5000 | Some d \<Rightarrow> d)"

definition showNotification :: "options \<Rightarrow> page \<Rightarrow> nat \<times> page" where
  "showNotification opts p =
     (let (c, p1) = container p;
          n = fresh p1;
          p2 = p1\<lparr>children := (children p1)(c := children p1 c @ [n]),
                  home := (home p1)(n := c), fresh := Suc n\<rparr>;
          p3 = (if typeOf opts \<noteq> js ''error''
                then setTimeout (AutoDismiss n) (durationOf opts) p2 else p2)
      in (n, p3))"

text \<open>
  The two timer callbacks. The first (lines 87 to 91) clicks the close button when the
  notification still has a parent. The second (lines 72 to 77) removes the notification
  from its container and the container, when empty, from the body; \<open>removeChild\<close> of a
  node that is not a child throws, which ends the callback.
\<close>

fun fire :: "task \<Rightarrow> page \<Rightarrow> dom_error option \<times> page" where
  "fire (AutoDismiss n) p =
     (None, if n \<in> set (children p (home p n)) then closeClick n p else p)"
| "fire (Removal n) p =
     (let c = home p n in
      if n \<notin> set (children p c) then (Some NotFoundError, p)
      else
        let p1 = p\<lparr>children := (children p)(c := removeAll n (children p c))\<rparr> in
        if children p1 c \<noteq> [] then (None, p1)
        else if attached p1 = Some c then (None, p1\<lparr>attached := None\<rparr>)
        else (Some NotFoundError, p1))"

fun earliest :: "(int \<times> task) list \<Rightarrow> (int \<times> task) option" where
  "earliest [] = None"
| "earliest (x # xs) =
     (case earliest xs of
        None \<Rightarrow> Some x
      | Some y \<Rightarrow> if fst y < fst x then Some y else Some x)"

fun weight :: "int \<times> task \<Rightarrow> nat" where
  "weight (t, AutoDismiss n) = 2"
| "weight (t, Removal n) = 1"

text \<open>The event loop up to the time \<open>T\<close>: every timer that is due runs, in its turn.\<close>

function advance :: "int \<Rightarrow> page \<Rightarrow> page" where
  "advance T p =
     (case earliest (timers p) of
        None \<Rightarrow> p\<lparr>clock := max (clock p) T\<rparr>
      | Some x \<Rightarrow>
          if T < fst x then p\<lparr>clock := max (clock p) T\<rparr>
          else advance T (snd (fire (snd x)
                 (p\<lparr>timers := remove1 x (timers p), clock := max (clock p) (fst x)\<rparr>))))"
  by pat_completeness auto

termination advance
proof (relation "measure (\<lambda>(T, p). sum_list (map weight (timers p)))", goal_cases)
  case 1
  show ?case by simp
next
  case (2 T p x)
  have mem: "earliest ts = Some y \<Longrightarrow> y \<in> set ts" for ts y
    by (induction ts arbitrary: y) (auto split: option.splits if_splits)
  have less: "y \<in> set ts \<Longrightarrow>
      sum_list (map weight (remove1 y ts)) + weight y = sum_list (map weight ts)" for ts y
    by (induction ts) auto
  have grow: "sum_list (map weight (timers (snd (fire k q)))) + weight (t, k) \<le>
      sum_list (map weight (timers q)) + 2 * weight (t, k) - 1" for k q t
    by (cases k) (auto simp: closeClick_def setTimeout_def Let_def)
  obtain t k where x: "x = (t, k)" by (cases x)
  have "0 < weight (t, k)" by (cases k) auto
  moreover have "sum_list (map weight (remove1 x (timers p))) + weight x =
      sum_list (map weight (timers p))"
    using 2 mem less by blast
  ultimately show ?case
    using grow[of k "p\<lparr>timers := remove1 x (timers p), clock := max (clock p) (fst x)\<rparr>" t]
    unfolding x by simp
qed

text \<open>
  What happens on the page besides the timers: a click on the close button of a
  notification that is in its container, and another call of \<open>showNotification\<close>.
  \<open>run\<close> takes the events in their order, each at its time after the timers that are
  due by then, and then runs the event loop up to the time \<open>T\<close>.
\<close>

datatype event = Click nat | Show options

fun apply_event :: "event \<Rightarrow> page \<Rightarrow> page" where
  "apply_event (Click n) p =
     (if n \<in> set (children p (home p n)) then closeClick n p else p)"
| "apply_event (Show opts) p = snd (showNotification opts p)"

fun run :: "(int \<times> event) list \<Rightarrow> int \<Rightarrow> page \<Rightarrow> page" where
  "run [] T p = advance T p"
| "run ((t, e) # es) T p =
     (if t \<le> T then run es T (apply_event e (advance t p)) else advance T p)"

definition inDocument :: "page \<Rightarrow> nat \<Rightarrow> bool" where
  "inDocument p n = (case attached p of None \<Rightarrow> False | Some c \<Rightarrow> n \<in> set (children p c))"

text \<open>
  The life of one notification \<open>n\<close> of the container \<open>c\<close>: waiting for its
  dismissal, due at a time; closing, its removal due at a time; removed; or without a
  timer, as for the type \<open>error\<close>.
\<close>

datatype phase = Waiting int | Closing int | Removed | Persistent

definition timersOf :: "nat \<Rightarrow> page \<Rightarrow> (int \<times> task) list" where
  "timersOf n p = filter (\<lambda>x. notif (snd x) = n) (timers p)"

definition placed :: "nat \<Rightarrow> nat \<Rightarrow> page \<Rightarrow> bool" where
  "placed n c p =
     (attached p = Some c \<and> n \<in> set (children p c) \<and>
      (\<forall>c'. n \<in> set (children p c') \<longrightarrow> c' = c))"

fun inPhase :: "nat \<Rightarrow> nat \<Rightarrow> phase \<Rightarrow> page \<Rightarrow> bool" where
  "inPhase n c (Waiting a) p =
     (n < fresh p \<and> home p n = c \<and> placed n c p \<and>
      timersOf n p = [(a, AutoDismiss n)] \<and> clock p \<le> a)"
| "inPhase n c (Closing r) p =
     (n < fresh p \<and> home p n = c \<and> placed n c p \<and> timersOf n p = [(r, Removal n)])"
| "inPhase n c Removed p =
     (n < fresh p \<and> home p n = c \<and> (\<forall>c'. n \<notin> set (children p c')) \<and> timersOf n p = [])"
| "inPhase n c Persistent p =
     (n < fresh p \<and> home p n = c \<and> placed n c p \<and> timersOf n p = [])"

fun later :: "int \<Rightarrow> phase \<Rightarrow> phase" where
  "later T (Waiting a) =
     (if T < a then Waiting a else if T < a + 300 then Closing (a + 300) else Removed)"
| "later T (Closing r) = (if T < r then Closing r else Removed)"
| "later T Removed = Removed"
| "later T Persistent = Persistent"

text \<open>Every element and every timer of the page is of an element made so far.\<close>

definition wellFormed :: "page \<Rightarrow> bool" where
  "wellFormed p =
     ((\<forall>c. \<forall>m \<in> set (children p c). m < fresh p) \<and>
      (\<forall>x \<in> set (timers p). notif (snd x) < fresh p))"

definition initialPage :: page where
  "initialPage =
     \<lparr>attached = None, children = (\<lambda>c. []), home = (\<lambda>n. 0), timers = [], clock = 0,
      fresh = 0\<rparr>"

subsection \<open>Reading the effects of a handler\<close>

fun notifications :: "effect list \<Rightarrow> options list" where
  "notifications [] = []"
| "notifications (ShowNotification n # es) = n # notifications es"
| "notifications (e # es) = notifications es"

fun dispatched :: "effect list \<Rightarrow> jsstring list" where
  "dispatched [] = []"
| "dispatched (SetLocationHref link # es) = link # dispatched es"
| "dispatched (e # es) = dispatched es"

subsection \<open>The rules in the specification's words\<close>

text \<open>How many characters a quantifier allows.\<close>

fun inRange :: "quantifier \<Rightarrow> nat \<Rightarrow> bool" where
  "inRange Once n = (n = 1)"
| "inRange OneOrMore n = (1 \<le> n)"
| "inRange (Between lo hi) n = (lo \<le> n \<and> n \<le> hi)"

text \<open>
  The shape \<open>local@domain.tld\<close>: three parts that are not empty, no white space, a
  single \<open>@\<close>, a dot after it.
\<close>

definition emailShape :: "jsstring \<Rightarrow> bool" where
  "emailShape s =
     (\<exists>local domain tld.
        s = local @ [0x40] @ domain @ [0x2E] @ tld \<and>
        local \<noteq> [] \<and> domain \<noteq> [] \<and> tld \<noteq> [] \<and>
        list_all (\<lambda>c. \<not> isWhiteSpace c) s \<and> count_list s 0x40 = 1)"

text \<open>10 to 15 characters of a class.\<close>

definition phoneShape :: "(code_unit \<Rightarrow> bool) \<Rightarrow> jsstring \<Rightarrow> bool" where
  "phoneShape cls s = (10 \<le> length s \<and> length s \<le> 15 \<and> list_all cls s)"

text \<open>Digits, space, hyphen, parentheses and plus sign.\<close>

definition specPhoneChar :: "code_unit \<Rightarrow> bool" where
  "specPhoneChar c =
     (isDigit c \<or> c = 0x20 \<or> c = 0x2D \<or> c = 0x28 \<or> c = 0x29 \<or> c = 0x2B)"

text \<open>A field that is absent or has no value.\<close>

definition absent :: "document \<Rightarrow> string \<Rightarrow> bool" where
  "absent doc ident = (doc ident = None \<or> doc ident = Some \<lparr>el_value = Undefined\<rparr>)"




text \<open>The messages that the date rule of the catering form adds.\<close>

definition dateMessages :: "js_env \<Rightarrow> jsval \<Rightarrow> jsstring list" where
  "dateMessages env date =
     (if falsy date then [msgDate]
      else (if dateLess (newDate env date) (setHours0 env (now env)) then [msgFuture] else []) @
           (if lessThan7 (daysUntil (newDate env date) (setHours0 env (now env)))
            then [msgAdvance] else []))"

subsection \<open>Examples\<close>

text \<open>
  Documents whose fields hold ASCII text, and a clock for the dates: 3 November 2025,
  09:30 UTC, in the time zone UTC, where the three dates used below parse to their
  midnight and \<open>tomorrow\<close> is no date.
\<close>

definition field :: "string \<Rightarrow> element option" where
  "field s = Some \<lparr>el_value = Str (js s)\<rparr>"

definition sampleDates :: "jsstring \<Rightarrow> int option" where
  "sampleDates s =
     (if s = js ''2025-11-01'' then Some 1761955200000
      else if s = js ''2025-11-06'' then Some 1762387200000
      else if s = js ''2025-12-03'' then Some 1764720000000
      else None)"

definition sampleEnv :: js_env where
  "sampleEnv =
     \<lparr>now = 1762162200000, setHours0 = (\<lambda>t. t - t mod 86400000), dateParse = sampleDates\<rparr>"

text \<open>An \<open>li\<close> element with its number.\<close>

definition listItem :: "32 word \<Rightarrow> element option" where
  "listItem n = Some \<lparr>el_value = Num n\<rparr>"

text \<open>
  The same morning in New York (UTC-5), 09:30 local time: the day starts at 05:00 UTC,
  and a date without a time is parsed as midnight UTC.
\<close>

definition newYorkEnv :: js_env where
  "newYorkEnv =
     \<lparr>now = 1762180200000,
      setHours0 = (\<lambda>t. t - (t - 18000000) mod 86400000),
      dateParse = (\<lambda>s. if s = js ''2025-11-03'' then Some 1762128000000 else None)\<rparr>"

definition noDocument :: document where
  "noDocument = (\<lambda>ident. None)"


definition noCateringFields :: catering_fields where
  "noCateringFields =
     \<lparr>k_name = [], k_email = [], k_phone = [], k_eventType = Str [], k_guests = 0,
      k_date = Str [], k_specialRequests = []\<rparr>"

definition joDocument :: document where
  "joDocument =
     noDocument(''contact-name'' := field ''Jo'', ''contact-email'' := field ''bad'',
       ''contact-phone'' := field [], ''contact-location'' := field [],
       ''contact-subject'' := field [], ''contact-message'' := field ''hi'')"

definition joFields :: contact_fields where
  "joFields =
     \<lparr>c_name = js ''Jo'', c_email = js ''bad'', c_phone = [], c_location = Str [],
      c_subject = Str [], c_message = js ''hi''\<rparr>"

definition annaDocument :: "string \<Rightarrow> document" where
  "annaDocument date =
     noDocument(''name'' := field ''Anna Smith'', ''email'' := field ''a@b.com'',
       ''phone'' := field ''0821234567'', ''event-type'' := field ''wedding'',
       ''guests'' := field ''100'', ''date'' := field date, ''message'' := field [])"

definition annaFields :: "string \<Rightarrow> catering_fields" where
  "annaFields date =
     \<lparr>k_name = js ''Anna Smith'', k_email = js ''a@b.com'', k_phone = js ''0821234567'',
      k_eventType = Str (js ''wedding''), k_guests = 100, k_date = Str (js date),
      k_specialRequests = []\<rparr>"

text \<open>The enquiry of Anna Smith for 3 December 2025 with another entry for the guests.\<close>

definition guestsDocument :: "element option \<Rightarrow> document" where
  "guestsDocument e = (annaDocument ''2025-12-03'')(''guests'' := e)"

definition guestsFields :: "int \<Rightarrow> catering_fields" where
  "guestsFields n = (annaFields ''2025-12-03'')\<lparr>k_guests := n\<rparr>"


text \<open>A notice that asks for \<open>2^31\<close> ms, nearly 25 days.\<close>

definition longNotice :: options where
  "longNotice =
     \<lparr>opt_title = js ''Notice'', opt_message = Text (js ''We are closed on public holidays.''),
      opt_type = Some (js ''info''), opt_list = None, opt_duration = Some 2147483648\<rparr>"

text \<open>A telephone number written with tabs: \<open>082<TAB>123<TAB>4567\<close>.\<close>

definition tabbedPhone :: jsstring where
  "tabbedPhone = js ''082'' @ [0x9] @ js ''123'' @ [0x9] @ js ''4567''"

definition tabbedFields :: contact_fields where
  "tabbedFields =
     \<lparr>c_name = js ''Anna Smith'', c_email = js ''a@b.com'', c_phone = tabbedPhone,
      c_location = Str [], c_subject = Str (js ''general''),
      c_message = js ''Do you cater weddings?''\<rparr>"

section \<open>Properties\<close>

subsection \<open>Evaluation and the messages\<close>

lemmas char_simps = js_def isWhiteSpace_def isDigit_def notSpaceAt_def phoneChar_def

lemmas read_simps = readTrimmed_def readValue_def andThen_def getValue_def orEmptyObject_def
  getElementById_def optionalTrim_def callTrim_def orString_def orValue_def falsy_def
  toString_def trim_def

lemmas msg_simps = msgName_def msgEmail_def msgContactPhone_def msgSubject_def msgMessage_def
  msgCateringPhone_def msgEventType_def msgGuests_def msgDate_def msgFuture_def msgAdvance_def
  bullet_def

lemmas date_simps = checkDate_def newDate_def dateLess_def daysUntil_def lessThan7_def
  sampleEnv_def sampleDates_def falsy_def

lemma msg_distinct:
  "distinct [msgName, msgEmail, msgContactPhone, msgSubject, msgMessage, msgCateringPhone,
     msgEventType, msgGuests, msgDate, msgFuture, msgAdvance]"
  by (simp add: msg_simps js_def)

lemma errors_failIf: "errors (failIf c m v) = errors v @ (if c then [m] else [])"
  by (simp add: failIf_def)

lemma isValid_failIf: "isValid (failIf c m v) = (isValid v \<and> \<not> c)"
  by (simp add: failIf_def)

lemma errors_pushIf: "errors (pushIf c m v) = errors v @ (if c then [m] else [])"
  by (simp add: pushIf_def)

lemma isValid_pushIf: "isValid (pushIf c m v) = isValid v"
  by (simp add: pushIf_def)

subsection \<open>The two validations as lists of independent checks\<close>

lemma contactValidate_errors:
  "errors (contactValidate f) =
     (if length (c_name f) < 2 then [msgName] else []) @
     (if \<not> test emailPattern (c_email f) then [msgEmail] else []) @
     (if c_phone f \<noteq> [] \<and> \<not> test phonePattern (c_phone f) then [msgContactPhone] else []) @
     (if falsy (c_subject f) then [msgSubject] else []) @
     (if length (c_message f) < 10 then [msgMessage] else [])"
  by (simp add: contactValidate_def Let_def errors_failIf start_def)

lemma contactValidate_isValid:
  "isValid (contactValidate f) =
     (2 \<le> length (c_name f) \<and> test emailPattern (c_email f) \<and>
      (c_phone f = [] \<or> test phonePattern (c_phone f)) \<and> \<not> falsy (c_subject f) \<and>
      10 \<le> length (c_message f))"
  by (auto simp add: contactValidate_def Let_def isValid_failIf start_def)

lemma checkDate_errors: "errors (checkDate env date v) = errors v @ dateMessages env date"
  by (simp add: checkDate_def dateMessages_def Let_def errors_failIf errors_pushIf)

lemma checkDate_isValid:
  "isValid (checkDate env date v) =
     (isValid v \<and> \<not> falsy date \<and> \<not> dateLess (newDate env date) (setHours0 env (now env)))"
  by (simp add: checkDate_def Let_def isValid_failIf isValid_pushIf)

lemma cateringValidate_errors:
  "errors (cateringValidate env f) =
     (if length (k_name f) < 2 then [msgName] else []) @
     (if \<not> test emailPattern (k_email f) then [msgEmail] else []) @
     (if \<not> test phonePattern (k_phone f) then [msgCateringPhone] else []) @
     (if falsy (k_eventType f) then [msgEventType] else []) @
     (if k_guests f < 10 \<or> k_guests f > 500 then [msgGuests] else []) @
     dateMessages env (k_date f)"
  by (simp add: cateringValidate_def Let_def errors_failIf checkDate_errors start_def)

lemma cateringValidate_isValid:
  "isValid (cateringValidate env f) =
     (2 \<le> length (k_name f) \<and> test emailPattern (k_email f) \<and>
      test phonePattern (k_phone f) \<and> \<not> falsy (k_eventType f) \<and>
      10 \<le> k_guests f \<and> k_guests f \<le> 500 \<and> \<not> falsy (k_date f) \<and>
      \<not> dateLess (newDate env (k_date f)) (setHours0 env (now env)))"
  by (auto simp add: cateringValidate_def Let_def isValid_failIf checkDate_isValid start_def)

subsection \<open>The examples, evaluated\<close>

lemma readContact_jo: "readContact joDocument = Inr joFields"
  by (simp add: readContact_def joDocument_def noDocument_def joFields_def field_def
      read_simps char_simps)

lemma jo_errors: "errors (contactValidate joFields) = [msgEmail, msgSubject, msgMessage]"
  by (simp add: contactValidate_errors joFields_def emailPattern_def falsy_def char_simps)

lemma jo_invalid: "\<not> isValid (contactValidate joFields)"
  by (simp add: contactValidate_isValid joFields_def falsy_def)

lemma readCatering_anna: "readCatering (annaDocument date) = Inr (annaFields date)"
  by (simp add: readCatering_def readGuests_def annaDocument_def noDocument_def annaFields_def
      field_def read_simps char_simps parseInt10_def orZero_def digitsValue_def)

lemma anna_rules:
  "2 \<le> length (k_name (annaFields date))" "test emailPattern (k_email (annaFields date))"
  "test phonePattern (k_phone (annaFields date))" "\<not> falsy (k_eventType (annaFields date))"
  "k_guests (annaFields date) = 100"
  by (simp_all add: annaFields_def emailPattern_def phonePattern_def falsy_def char_simps)

lemma anna_december:
  "cateringValidate sampleEnv (annaFields ''2025-12-03'') = \<lparr>isValid = True, errors = []\<rparr>"
  by (simp add: cateringValidate_def annaFields_def failIf_def pushIf_def start_def date_simps
      emailPattern_def phonePattern_def char_simps)

lemma anna_thursday:
  "cateringValidate sampleEnv (annaFields ''2025-11-06'') =
     \<lparr>isValid = True, errors = [msgAdvance]\<rparr>"
  by (simp add: cateringValidate_def annaFields_def failIf_def pushIf_def start_def date_simps
      emailPattern_def phonePattern_def char_simps)

lemma anna_tomorrow:
  "cateringValidate sampleEnv (annaFields ''tomorrow'') = \<lparr>isValid = True, errors = []\<rparr>"
  by (simp add: cateringValidate_def annaFields_def failIf_def pushIf_def start_def date_simps
      emailPattern_def phonePattern_def char_simps)

subsection \<open>Regular expressions: what \<open>test\<close> accepts\<close>

lemma takeWhile_prefix_length:
  "k \<le> length (takeWhile P s) \<longleftrightarrow> k \<le> length s \<and> list_all P (take k s)"
proof (induction s arbitrary: k)
  case Nil
  then show ?case by simp
next
  case (Cons x xs)
  show ?case
  proof (cases k)
    case 0
    then show ?thesis by simp
  next
    case (Suc j)
    with Cons show ?thesis by simp
  qed
qed

lemma q_max_bound:
  "q_min q \<le> k \<and> k \<le> q_max q (length (takeWhile P s)) \<longleftrightarrow>
   inRange q k \<and> k \<le> length s \<and> list_all P (take k s)"
  by (cases q) (auto simp: takeWhile_prefix_length)

lemma test_Cons_split:
  "test ((cls, q) # ts) s \<longleftrightarrow>
   (\<exists>u v. s = u @ v \<and> list_all cls u \<and> inRange q (length u) \<and> test ts v)"
proof -
  have "test ((cls, q) # ts) s \<longleftrightarrow>
        (\<exists>k. (q_min q \<le> k \<and> k \<le> q_max q (length (takeWhile cls s))) \<and> test ts (drop k s))"
    by (auto simp: list_ex_iff Let_def)
  also have "\<dots> \<longleftrightarrow>
        (\<exists>k. inRange q k \<and> k \<le> length s \<and> list_all cls (take k s) \<and> test ts (drop k s))"
    unfolding q_max_bound by auto
  also have "\<dots> \<longleftrightarrow> (\<exists>u v. s = u @ v \<and> list_all cls u \<and> inRange q (length u) \<and> test ts v)"
  proof
    assume "\<exists>k. inRange q k \<and> k \<le> length s \<and> list_all cls (take k s) \<and> test ts (drop k s)"
    then obtain k where k: "inRange q k" "k \<le> length s" "list_all cls (take k s)"
        "test ts (drop k s)"
      by blast
    have "s = take k s @ drop k s" by simp
    moreover have "length (take k s) = k" using k(2) by simp
    ultimately show "\<exists>u v. s = u @ v \<and> list_all cls u \<and> inRange q (length u) \<and> test ts v"
      using k by metis
  next
    assume "\<exists>u v. s = u @ v \<and> list_all cls u \<and> inRange q (length u) \<and> test ts v"
    then obtain u v where uv: "s = u @ v" "list_all cls u" "inRange q (length u)" "test ts v"
      by blast
    then have "inRange q (length u) \<and> length u \<le> length s \<and>
        list_all cls (take (length u) s) \<and> test ts (drop (length u) s)"
      by simp
    then show "\<exists>k. inRange q k \<and> k \<le> length s \<and> list_all cls (take k s) \<and> test ts (drop k s)"
      by blast
  qed
  finally show ?thesis .
qed

lemma test_phonePattern: "test phonePattern s \<longleftrightarrow> phoneShape phoneChar s"
  unfolding phonePattern_def phoneShape_def test_Cons_split by auto

lemma test_ConsD:
  "test ((cls, q) # ts) s \<Longrightarrow>
   \<exists>u v. s = u @ v \<and> list_all cls u \<and> inRange q (length u) \<and> test ts v"
  by (rule iffD1[OF test_Cons_split])

lemma test_ConsI:
  "list_all cls u \<Longrightarrow> inRange q (length u) \<Longrightarrow> test ts v \<Longrightarrow> test ((cls, q) # ts) (u @ v)"
  by (rule iffD2[OF test_Cons_split]) blast

lemma test_Once: "test ts v \<Longrightarrow> test ((\<lambda>c. c = a, Once) # ts) ([a] @ v)"
  by (rule test_ConsI) simp_all

lemma test_OneOrMore:
  "list_all cls u \<Longrightarrow> u \<noteq> [] \<Longrightarrow> test ts v \<Longrightarrow> test ((cls, OneOrMore) # ts) (u @ v)"
  by (rule test_ConsI) (simp_all add: Suc_le_eq)

lemma test_Nil: "test [] v \<longleftrightarrow> v = []"
  by simp

lemma list_all_Once: "list_all (\<lambda>c. c = a) u \<and> length u = 1 \<longleftrightarrow> u = [a]"
  by (cases u) auto

lemma emailPattern_parts:
  assumes "test emailPattern s"
  shows "\<exists>l d t. s = l @ [0x40] @ d @ [0x2E] @ t \<and> l \<noteq> [] \<and> d \<noteq> [] \<and> t \<noteq> [] \<and>
      list_all notSpaceAt l \<and> list_all notSpaceAt d \<and> list_all notSpaceAt t"
proof -
  from assms obtain l r1 where 1: "s = l @ r1" "list_all notSpaceAt l"
      "inRange OneOrMore (length l)"
      "test [(\<lambda>c. c = 0x40, Once), (notSpaceAt, OneOrMore), (\<lambda>c. c = 0x2E, Once),
        (notSpaceAt, OneOrMore)] r1"
    unfolding emailPattern_def using test_ConsD by blast
  from 1(4) obtain a r2 where 2: "r1 = a @ r2" "list_all (\<lambda>c. c = 0x40) a"
      "inRange Once (length a)"
      "test [(notSpaceAt, OneOrMore), (\<lambda>c. c = 0x2E, Once), (notSpaceAt, OneOrMore)] r2"
    using test_ConsD by blast
  from 2(4) obtain d r3 where 3: "r2 = d @ r3" "list_all notSpaceAt d"
      "inRange OneOrMore (length d)"
      "test [(\<lambda>c. c = 0x2E, Once), (notSpaceAt, OneOrMore)] r3"
    using test_ConsD by blast
  from 3(4) obtain p r4 where 4: "r3 = p @ r4" "list_all (\<lambda>c. c = 0x2E) p"
      "inRange Once (length p)" "test [(notSpaceAt, OneOrMore)] r4"
    using test_ConsD by blast
  from 4(4) obtain t r5 where 5: "r4 = t @ r5" "list_all notSpaceAt t"
      "inRange OneOrMore (length t)" "test [] r5"
    using test_ConsD by blast
  have r5: "r5 = []" using 5(4) by (simp only: test_Nil)
  have a: "a = [0x40]" using 2(2,3) list_all_Once[of "0x40" a] by simp
  have p: "p = [0x2E]" using 4(2,3) list_all_Once[of "0x2E" p] by simp
  have s: "s = l @ [0x40] @ d @ [0x2E] @ t" using 1(1) 2(1) 3(1) 4(1) 5(1) r5 a p by simp
  have ne: "l \<noteq> []" "d \<noteq> []" "t \<noteq> []" using 1(3) 3(3) 5(3) by auto
  show ?thesis using s ne 1(2) 3(2) 5(2) by blast
qed

lemma emailPattern_accepts:
  assumes ne: "l \<noteq> []" "d \<noteq> []" "t \<noteq> []"
    and cls: "list_all notSpaceAt l" "list_all notSpaceAt d" "list_all notSpaceAt t"
  shows "test emailPattern (l @ [0x40] @ d @ [0x2E] @ t)"
proof -
  have "test [] []" by simp
  from test_OneOrMore[OF cls(3) ne(3) this]
  have "test [(notSpaceAt, OneOrMore)] t" by simp
  from test_OneOrMore[OF cls(2) ne(2) test_Once[OF this, of "0x2E"]]
  have "test [(notSpaceAt, OneOrMore), (\<lambda>c. c = 0x2E, Once), (notSpaceAt, OneOrMore)]
      (d @ [0x2E] @ t)" .
  from test_OneOrMore[OF cls(1) ne(1) test_Once[OF this, of "0x40"]]
  show ?thesis unfolding emailPattern_def .
qed

lemma notSpaceAt_count: "list_all notSpaceAt u \<Longrightarrow> count_list u 0x40 = 0"
  by (induction u) (auto simp: notSpaceAt_def)

lemma notSpaceAt_noSpace: "list_all notSpaceAt u \<Longrightarrow> list_all (\<lambda>c. \<not> isWhiteSpace c) u"
  by (induction u) (auto simp: notSpaceAt_def)

lemma notSpaceAt_intro:
  "list_all (\<lambda>c. \<not> isWhiteSpace c) u \<Longrightarrow> count_list u 0x40 = 0 \<Longrightarrow> list_all notSpaceAt u"
  by (induction u) (auto simp: notSpaceAt_def split: if_splits)

lemma noSpace_at_dot: "\<not> isWhiteSpace 0x40" "\<not> isWhiteSpace 0x2E"
  by (simp_all add: isWhiteSpace_def)

lemma test_emailPattern: "test emailPattern s \<longleftrightarrow> emailShape s"
proof
  assume "test emailPattern s"
  then obtain l d t where s: "s = l @ [0x40] @ d @ [0x2E] @ t"
    and ne: "l \<noteq> []" "d \<noteq> []" "t \<noteq> []"
    and cls: "list_all notSpaceAt l" "list_all notSpaceAt d" "list_all notSpaceAt t"
    using emailPattern_parts by blast
  have "list_all (\<lambda>c. \<not> isWhiteSpace c) s"
    unfolding s using cls[THEN notSpaceAt_noSpace] noSpace_at_dot by simp
  moreover have "count_list s 0x40 = 1"
    unfolding s using cls[THEN notSpaceAt_count] by simp
  ultimately show "emailShape s" unfolding emailShape_def using s ne by blast
next
  assume "emailShape s"
  then obtain l d t where s: "s = l @ [0x40] @ d @ [0x2E] @ t"
    and ne: "l \<noteq> []" "d \<noteq> []" "t \<noteq> []"
    and ws: "list_all (\<lambda>c. \<not> isWhiteSpace c) s" and one: "count_list s 0x40 = 1"
    unfolding emailShape_def by blast
  have c0: "count_list l 0x40 = 0" "count_list d 0x40 = 0" "count_list t 0x40 = 0"
    using one unfolding s by simp_all
  have w: "list_all (\<lambda>c. \<not> isWhiteSpace c) l" "list_all (\<lambda>c. \<not> isWhiteSpace c) d"
    "list_all (\<lambda>c. \<not> isWhiteSpace c) t"
    using ws unfolding s by simp_all
  have "list_all notSpaceAt l" "list_all notSpaceAt d" "list_all notSpaceAt t"
    using w c0 by (simp_all add: notSpaceAt_intro)
  then show "test emailPattern s" unfolding s using ne by (rule emailPattern_accepts[rotated 3])
qed

subsection \<open>Reading the fields\<close>

text \<open>Both ends of a value are trimmed, by all white space.\<close>

lemma trim_example: "trim ([0x20, 0xA0] @ js ''Anna Smith'' @ [0x9, 0x20]) = js ''Anna Smith''"
  by (simp add: trim_def char_simps)





lemma read_absent:
  "absent doc ident \<Longrightarrow> readTrimmed doc ident = Inr [] \<and> readValue doc ident d = Inr (Str d)"
  by (auto simp: absent_def read_simps)








lemma readCatering_guests: "readCatering doc = Inr f \<Longrightarrow> readGuests doc = Inr (k_guests f)"
  by (auto simp: readCatering_def andThen_def split: sum.splits)




subsection \<open>\<open>parseInt\<close>: what it reads\<close>

lemma digit_char:
  assumes "d < 10"
  shows "isDigit (digit d)" and "uint (digit d) = 0x30 + int d"
    and "\<not> isWhiteSpace (digit d)" and "digit d \<noteq> 0x2B" and "digit d \<noteq> 0x2D"
proof -
  from assms have "d \<in> {0, 1, 2, 3, 4, 5, 6, 7, 8, 9}" by auto
  then show "isDigit (digit d)" and "uint (digit d) = 0x30 + int d"
    and "\<not> isWhiteSpace (digit d)" and "digit d \<noteq> 0x2B" and "digit d \<noteq> 0x2D"
    by (auto simp: digit_def isDigit_def isWhiteSpace_def)
qed

lemma isDigit_char:
  assumes "isDigit c"
  shows "\<not> isWhiteSpace c" and "c \<noteq> 0x2B" and "c \<noteq> 0x2D"
proof -
  from assms have "48 \<le> unat c" "unat c \<le> 57"
    by (simp_all add: isDigit_def word_le_nat_alt)
  then show "\<not> isWhiteSpace c" and "c \<noteq> 0x2B" and "c \<noteq> 0x2D"
    by (auto simp: isWhiteSpace_def word_le_nat_alt)
qed

lemma decimal_digits: "list_all isDigit (decimal n) \<and> decimal n \<noteq> []"
proof (induction n rule: decimal.induct)
  case (1 n)
  show ?case
  proof (cases "n < 10")
    case True
    then show ?thesis by (simp add: decimal.simps[of n] digit_char)
  next
    case False
    with 1 show ?thesis by (simp add: decimal.simps[of n] digit_char)
  qed
qed

lemma digitsValue_snoc: "digitsValue (ds @ [c]) = 10 * digitsValue ds + (uint c - 0x30)"
  by (simp add: digitsValue_def)

lemma digitsValue_decimal: "digitsValue (decimal n) = int n"
proof (induction n rule: decimal.induct)
  case (1 n)
  show ?case
  proof (cases "n < 10")
    case True
    then show ?thesis by (simp add: decimal.simps[of n] digit_char digitsValue_def)
  next
    case False
    with 1 have "digitsValue (decimal n) = 10 * int (n div 10) + int (n mod 10)"
      by (simp add: decimal.simps[of n] digitsValue_snoc digit_char)
    moreover have "10 * int (n div 10) + int (n mod 10) = int (10 * (n div 10) + n mod 10)"
      by (simp only: of_nat_add of_nat_mult of_nat_numeral)
    ultimately show ?thesis by (simp only: mult_div_mod_eq)
  qed
qed

lemma digitsValue_zeros: "digitsValue (replicate z 0x30 @ ds) = digitsValue ds"
  by (induction z) (simp_all add: digitsValue_def)

lemma takeWhile_run:
  "list_all P ds \<Longrightarrow> rest = [] \<or> \<not> P (hd rest) \<Longrightarrow> takeWhile P (ds @ rest) = ds"
  by (induction ds) (cases rest; auto)+

lemma dropWhile_run:
  "list_all P ws \<Longrightarrow> t = [] \<or> \<not> P (hd t) \<Longrightarrow> dropWhile P (ws @ t) = t"
  by (induction ws) (cases t; auto)+

text \<open>
  White space, an optional sign, decimal digits (leading zeros allowed) and then anything
  that does not go on with a digit: \<open>parseInt\<close> gives the number that the digits write.
\<close>

lemma parseInt10_integer:
  assumes ws: "list_all isWhiteSpace ws"
    and sg: "sg = [] \<or> sg = [0x2B] \<or> sg = [0x2D]"
    and rest: "rest = [] \<or> \<not> isDigit (hd rest)"
  shows "parseInt10 (ws @ sg @ replicate z 0x30 @ decimal n @ rest) =
      Some (if sg = [0x2D] then - int n else int n)"
proof -
  let ?ds = "replicate z 0x30 @ decimal n"
  have "list_all isDigit (replicate z 0x30)"
    by (induction z) (simp_all add: isDigit_def)
  then have ds: "list_all isDigit ?ds" "?ds \<noteq> []"
    using decimal_digits[of n] by simp_all
  then obtain c cs where c: "?ds = c # cs" "isDigit c" by (cases ?ds) auto
  then have c': "\<not> isWhiteSpace c" "c \<noteq> 0x2B" "c \<noteq> 0x2D"
    by (simp_all add: isDigit_char)
  have tw: "takeWhile isDigit (?ds @ rest) = ?ds"
    using ds(1) rest by (rule takeWhile_run)
  have v: "digitsValue ?ds = int n"
    by (simp add: digitsValue_zeros digitsValue_decimal)
  have nws: "\<not> isWhiteSpace 0x2B" "\<not> isWhiteSpace 0x2D"
    by (simp_all add: isWhiteSpace_def)
  have dw: "dropWhile isWhiteSpace (ws @ sg @ ?ds @ rest) = sg @ ?ds @ rest"
    using sg c c' nws by (intro dropWhile_run[OF ws]) auto
  have "parseInt10 (ws @ sg @ ?ds @ rest) = Some (if sg = [0x2D] then - int n else int n)"
    unfolding parseInt10_def dw
    using sg c c' tw v ds(2) by (auto simp: Let_def simp del: replicate.simps)
  then show ?thesis by simp
qed

text \<open>
  After the white space and the sign, if there is one, no digit: \<open>parseInt\<close> gives \<open>NaN\<close>.
\<close>

lemma parseInt10_failure:
  assumes ws: "list_all isWhiteSpace ws"
    and sg: "sg = [] \<or> sg = [0x2B] \<or> sg = [0x2D]"
    and rest: "rest = [] \<or> \<not> isDigit (hd rest)"
    and longest: "sg = [] \<longrightarrow>
      rest = [] \<or> \<not> isWhiteSpace (hd rest) \<and> hd rest \<noteq> 0x2B \<and> hd rest \<noteq> 0x2D"
  shows "parseInt10 (ws @ sg @ rest) = None"
proof -
  have nws: "\<not> isWhiteSpace 0x2B" "\<not> isWhiteSpace 0x2D"
    by (simp_all add: isWhiteSpace_def)
  have dw: "dropWhile isWhiteSpace (ws @ sg @ rest) = sg @ rest"
    using sg longest nws by (intro dropWhile_run[OF ws]) auto
  have tw: "takeWhile isDigit rest = []"
    using rest by (cases rest) auto
  show ?thesis
    unfolding parseInt10_def dw using sg longest tw by (auto simp: Let_def)
qed

lemma decimal_small: "n < 10 \<Longrightarrow> decimal n = [digit n]"
  by (simp add: decimal.simps[of n])

lemma digit_of_char: "isDigit c \<Longrightarrow> c = digit (unat c - 48) \<and> unat c - 48 < 10"
proof -
  assume "isDigit c"
  then have b: "48 \<le> unat c" "unat c \<le> 57"
    by (simp_all add: isDigit_def word_le_nat_alt)
  then have "of_nat (48 + (unat c - 48)) = c" by simp
  with b show ?thesis by (simp add: digit_def)
qed

lemma decimal_snoc: "0 < n \<Longrightarrow> k < 10 \<Longrightarrow> decimal n @ [digit k] = decimal (10 * n + k)"
  by (simp add: decimal.simps[of "10 * n + k"])

lemma decimal_zero: "decimal 0 = [0x30]"
  by (simp add: decimal_small digit_def)

text \<open>Every run of digits is a decimal numeral after leading zeros.\<close>

lemma digits_decimal:
  "list_all isDigit ds \<Longrightarrow> ds \<noteq> [] \<Longrightarrow> \<exists>z n. ds = replicate z 0x30 @ decimal n"
proof (induction ds rule: rev_induct)
  case Nil
  then show ?case by simp
next
  case (snoc c ds)
  from snoc.prems have c: "c = digit (unat c - 48)" "unat c - 48 < 10"
    using digit_of_char[of c] by simp_all
  show ?case
  proof (cases "ds = []")
    case True
    have "[] @ [c] = replicate 0 0x30 @ decimal (unat c - 48)"
      using c by (simp add: decimal_small)
    with True show ?thesis by blast
  next
    case False
    with snoc obtain z n where ds: "ds = replicate z 0x30 @ decimal n" by auto
    show ?thesis
    proof (cases "n = 0")
      case True
      have "ds @ [c] = replicate (Suc z) 0x30 @ decimal (unat c - 48)"
        using c ds True by (simp add: decimal_zero decimal_small replicate_append_same)
      then show ?thesis by blast
    next
      case False
      then have "decimal n @ [c] = decimal (10 * n + (unat c - 48))"
        using c decimal_snoc[of n "unat c - 48"] by simp
      with ds have "ds @ [c] = replicate z 0x30 @ decimal (10 * n + (unat c - 48))" by simp
      then show ?thesis by blast
    qed
  qed
qed

text \<open>
  Every entry has one of the two forms: after its leading white space and one sign, if
  there is one, it goes on with a digit or it does not.
\<close>

lemma entry_forms:
  "(\<exists>ws sg z n rest. list_all isWhiteSpace ws \<and> (sg = [] \<or> sg = [0x2B] \<or> sg = [0x2D]) \<and>
      (rest = [] \<or> \<not> isDigit (hd rest)) \<and>
      s = ws @ sg @ replicate z 0x30 @ decimal n @ rest) \<or>
   (\<exists>ws sg rest. list_all isWhiteSpace ws \<and> (sg = [] \<or> sg = [0x2B] \<or> sg = [0x2D]) \<and>
      (rest = [] \<or> \<not> isDigit (hd rest)) \<and>
      (sg = [] \<longrightarrow>
         rest = [] \<or> \<not> isWhiteSpace (hd rest) \<and> hd rest \<noteq> 0x2B \<and> hd rest \<noteq> 0x2D) \<and>
      s = ws @ sg @ rest)"
proof -
  define ws where "ws = takeWhile isWhiteSpace s"
  define t where "t = dropWhile isWhiteSpace s"
  define sg where "sg = (if t \<noteq> [] \<and> (hd t = 0x2B \<or> hd t = 0x2D) then [hd t] else [])"
  define u where "u = drop (length sg) t"
  define ds where "ds = takeWhile isDigit u"
  define rest where "rest = dropWhile isDigit u"
  have s: "s = ws @ t" by (simp add: ws_def t_def)
  have w: "list_all isWhiteSpace ws"
    unfolding ws_def list_all_iff using set_takeWhileD by fastforce
  have t0: "t = [] \<or> \<not> isWhiteSpace (hd t)"
    unfolding t_def using hd_dropWhile[of isWhiteSpace s] by blast
  have tu: "t = sg @ u"
    unfolding u_def sg_def by (cases t) auto
  have g: "sg = [] \<or> sg = [0x2B] \<or> sg = [0x2D]"
    unfolding sg_def by auto
  have u: "u = ds @ rest" by (simp add: ds_def rest_def)
  have d: "list_all isDigit ds"
    unfolding ds_def list_all_iff using set_takeWhileD by fastforce
  have r: "rest = [] \<or> \<not> isDigit (hd rest)"
    unfolding rest_def using hd_dropWhile[of isDigit u] by blast
  show ?thesis
  proof (cases "ds = []")
    case False
    with d obtain z n where "ds = replicate z 0x30 @ decimal n"
      using digits_decimal by blast
    with s tu u have "s = ws @ sg @ replicate z 0x30 @ decimal n @ rest" by simp
    with w g r show ?thesis by blast
  next
    case True
    with u have ur: "u = rest" by simp
    have "sg = [] \<longrightarrow>
        rest = [] \<or> \<not> isWhiteSpace (hd rest) \<and> hd rest \<noteq> 0x2B \<and> hd rest \<noteq> 0x2D"
    proof
      assume e: "sg = []"
      with tu ur have tr: "t = rest" by simp
      with e have "rest = [] \<or> \<not> (hd rest = 0x2B \<or> hd rest = 0x2D)"
        unfolding sg_def by (auto split: if_splits)
      with t0 tr show "rest = [] \<or> \<not> isWhiteSpace (hd rest) \<and> hd rest \<noteq> 0x2B \<and> hd rest \<noteq> 0x2D"
        by auto
    qed
    moreover from s tu ur have "s = ws @ sg @ rest" by simp
    ultimately show ?thesis using w g r by blast
  qed
qed

lemma readGuests_string:
  "doc ''guests'' = Some \<lparr>el_value = Str s\<rparr> \<Longrightarrow>
   readGuests doc = Inr (orZero (parseInt10 (if s = [] then js ''0'' else s)))"
  by (simp add: readGuests_def read_simps)

lemma parseInt10_zero: "parseInt10 (js ''0'') = Some 0"
  by (simp add: parseInt10_def digitsValue_def char_simps)

lemma readGuests_absent: "absent doc ''guests'' \<Longrightarrow> readGuests doc = Inr 0"
  using read_absent[of doc "''guests''" "js ''0''"]
  by (simp add: readGuests_def andThen_def toString_def parseInt10_zero orZero_def)

lemma readGuests_integer:
  assumes "list_all isWhiteSpace ws" and "sg = [] \<or> sg = [0x2B] \<or> sg = [0x2D]"
    and "rest = [] \<or> \<not> isDigit (hd rest)"
    and "doc ''guests'' = Some \<lparr>el_value = Str (ws @ sg @ replicate z 0x30 @ decimal n @ rest)\<rparr>"
  shows "readGuests doc = Inr (if sg = [0x2D] then - int n else int n)"
proof -
  let ?s = "ws @ sg @ replicate z 0x30 @ decimal n @ rest"
  have "?s \<noteq> []"
    using decimal_digits[of n] by simp
  then have "(if ?s = [] then js ''0'' else ?s) = ?s"
    by (simp only: if_False)
  with readGuests_string[of doc ?s] assms(4)
  have "readGuests doc = Inr (orZero (parseInt10 ?s))"
    by (simp only:)
  then show ?thesis
    unfolding parseInt10_integer[OF assms(1-3)] by (simp add: orZero_def)
qed

lemma readGuests_failure:
  assumes "list_all isWhiteSpace ws" and "sg = [] \<or> sg = [0x2B] \<or> sg = [0x2D]"
    and "rest = [] \<or> \<not> isDigit (hd rest)"
    and "sg = [] \<longrightarrow>
      rest = [] \<or> \<not> isWhiteSpace (hd rest) \<and> hd rest \<noteq> 0x2B \<and> hd rest \<noteq> 0x2D"
    and "doc ''guests'' = Some \<lparr>el_value = Str (ws @ sg @ rest)\<rparr>"
  shows "readGuests doc = Inr 0"
  using readGuests_string[of doc "ws @ sg @ rest"] assms(5) parseInt10_failure[OF assms(1-4)]
  by (simp add: orZero_def parseInt10_zero)

text \<open>The number of a list item is read as it is.\<close>

lemma readGuests_list_item:
  assumes "doc ''guests'' = listItem n"
  shows "readGuests doc = Inr (sint n)"
proof (cases "n = 0")
  case True
  with assms show ?thesis
    by (simp add: readGuests_def listItem_def read_simps parseInt10_zero orZero_def)
next
  case False
  have "parseInt10 ([] @ [0x2D] @ replicate 0 0x30 @ decimal (nat (- sint n)) @ []) =
      Some (- int (nat (- sint n)))"
    by (subst parseInt10_integer) simp_all
  moreover have "parseInt10 ([] @ [] @ replicate 0 0x30 @ decimal (nat (sint n)) @ []) =
      Some (int (nat (sint n)))"
    by (subst parseInt10_integer) simp_all
  ultimately have "parseInt10 (numberToString (sint n)) = Some (sint n)"
    by (simp add: numberToString_def)
  with assms False show ?thesis
    by (simp add: readGuests_def listItem_def read_simps orZero_def)
qed

lemma decimal_examples:
  "decimal 5 = js ''5''" "decimal 12 = js ''12''" "decimal 250 = js ''250''"
  "decimal 501 = js ''501''"
  by (simp_all add: decimal.simps[of 12] decimal.simps[of 250] decimal.simps[of 25]
      decimal.simps[of 501] decimal.simps[of 50] decimal_small digit_def js_def)

text \<open>The enquiry of Anna Smith with another entry for the guests.\<close>

lemma readCatering_guestsDocument:
  "readGuests (guestsDocument e) = Inr n \<Longrightarrow> readCatering (guestsDocument e) = Inr (guestsFields n)"
  by (simp add: readCatering_def guestsDocument_def guestsFields_def annaDocument_def
      annaFields_def noDocument_def field_def read_simps char_simps)

subsection \<open>The branches of the handlers\<close>

lemma contactSubmit_invalid:
  "readContact doc = Inr f \<Longrightarrow> \<not> isValid (contactValidate f) \<Longrightarrow>
   contactSubmit doc =
     Inr [PreventDefault, ShowNotification (validationError (errors (contactValidate f)))]"
  by (simp add: contactSubmit_def andThen_def Let_def)

lemma cateringSubmit_invalid:
  "readCatering doc = Inr f \<Longrightarrow> \<not> isValid (cateringValidate env f) \<Longrightarrow>
   cateringSubmit env doc =
     Inr [PreventDefault, ShowNotification (validationError (errors (cateringValidate env f)))]"
  by (simp add: cateringSubmit_def andThen_def Let_def)

lemma cateringSubmit_valid:
  "readCatering doc = Inr f \<Longrightarrow> isValid (cateringValidate env f) \<Longrightarrow>
   cateringSubmit env doc =
     (case k_eventType f of
        Str s \<Rightarrow> Inr [PreventDefault, ShowNotification (cateringSuccess env f), FormReset]
      | _ \<Rightarrow> Inl TypeError)"
  by (simp add: cateringSubmit_def andThen_def callCharAt0_def Let_def split: jsval.splits)


lemma readCatering_none: "readCatering noDocument = Inr noCateringFields"
  by (simp add: readCatering_def readGuests_def noDocument_def noCateringFields_def read_simps
      parseInt10_def orZero_def digitsValue_def char_simps)


lemma noCateringFields_result:
  "cateringValidate env noCateringFields =
     \<lparr>isValid = False,
      errors = [msgName, msgEmail, msgCateringPhone, msgEventType, msgGuests, msgDate]\<rparr>"
  by (simp add: cateringValidate_def checkDate_def noCateringFields_def failIf_def start_def
      emailPattern_def phonePattern_def falsy_def)



subsection \<open>The date rule\<close>

text \<open>
  The date rule compares two time values: that of the date and that of the start of the
  local day. An empty date fails.
\<close>

lemma parsed_date_rule:
  assumes "\<not> falsy date" and "newDate env date = Some t"
  shows "isValid (checkDate env date v) \<longleftrightarrow> isValid v \<and> setHours0 env (now env) \<le> t"
    and "msgFuture \<in> set (dateMessages env date) \<longleftrightarrow> t < setHours0 env (now env)"
    and "msgDate \<notin> set (dateMessages env date)"
  using assms msg_distinct by (auto simp: checkDate_isValid dateMessages_def dateLess_def)

lemma empty_date_rule:
  "\<not> isValid (checkDate env (Str []) v)" "dateMessages env (Str []) = [msgDate]"
  by (simp_all add: checkDate_isValid dateMessages_def falsy_def)

text \<open>
  The two time values are not of the same kind: a date without a time is parsed as
  midnight UTC, and the day starts at the local midnight. West of UTC the date of today
  lies before the start of today: in New York the enquiry for 3 November 2025, sent on
  that morning, is told to select a future date.
\<close>

lemma today_rejected_west_of_utc:
  "setHours0 newYorkEnv (now newYorkEnv) = 1762146000000"
  "newDate newYorkEnv (Str (js ''2025-11-03'')) = Some 1762128000000"
  "cateringValidate newYorkEnv (annaFields ''2025-11-03'') =
     \<lparr>isValid = False, errors = [msgFuture, msgAdvance]\<rparr>"
  by (simp_all add: cateringValidate_def annaFields_def failIf_def pushIf_def start_def
      checkDate_def newDate_def dateLess_def daysUntil_def lessThan7_def falsy_def
      newYorkEnv_def emailPattern_def phonePattern_def char_simps)

subsection \<open>What a handler can throw\<close>





text \<open>
  A contact form that passes validation can still throw: \<open>encodeURIComponent\<close> refuses
  a name that holds half of a surrogate pair.
\<close>

lemma contactSubmit_lone_surrogate:
  "contactSubmit
     (noDocument(''contact-name'' := Some \<lparr>el_value = Str [0x41, 0xD83D]\<rparr>,
        ''contact-email'' := field ''a@b.com'', ''contact-subject'' := field ''general'',
        ''contact-message'' := field ''Do you cater weddings?'')) = Inl URIError"
  by (simp add: contactSubmit_def readContact_def noDocument_def field_def read_simps
      contactValidate_def failIf_def start_def emailPattern_def mailtoLink_def emailBody_def
      orElse_def prepend_def isUnescaped_def isLeadSurrogate_def isTrailSurrogate_def
      escaped_def utf8_def percentByte_def hexDigit_def char_simps)


text \<open>
  An enquiry whose event type is a list item passes validation, is quoted at 150 a person
  and throws before the confirmation is shown.
\<close>

lemma cateringSubmit_list_item:
  "cateringSubmit sampleEnv ((annaDocument ''2025-12-03'')(''event-type'' := listItem 3)) =
     Inl TypeError"
  "costPerPerson (Num 3) = 150"
  by (simp_all add: cateringSubmit_def readCatering_def readGuests_def annaDocument_def
      noDocument_def field_def listItem_def read_simps parseInt10_def orZero_def digitsValue_def
      cateringValidate_def failIf_def pushIf_def start_def date_simps emailPattern_def
      phonePattern_def callCharAt0_def costPerPerson_def char_simps)

subsection \<open>The timers of one notification\<close>

lemma earliest_in: "earliest ts = Some x \<Longrightarrow> x \<in> set ts"
  by (induction ts arbitrary: x) (auto split: option.splits if_splits)

lemma earliest_None: "earliest ts = None \<longleftrightarrow> ts = []"
  by (cases ts) (auto split: option.splits)

lemma earliest_least: "earliest ts = Some x \<Longrightarrow> y \<in> set ts \<Longrightarrow> fst x \<le> fst y"
proof (induction ts arbitrary: x)
  case Nil
  then show ?case by simp
next
  case (Cons a ts)
  show ?case
  proof (cases "earliest ts")
    case None
    then have "ts = []" by (simp add: earliest_None)
    with Cons.prems show ?thesis by simp
  next
    case (Some z)
    have z: "y \<in> set ts \<Longrightarrow> fst z \<le> fst y" using Cons.IH[OF Some] by blast
    show ?thesis
    proof (cases "fst z < fst a")
      case True
      with Some Cons.prems(1) have "x = z" by simp
      with True z Cons.prems(2) show ?thesis by auto
    next
      case False
      with Some Cons.prems(1) have "x = a" by simp
      with False z Cons.prems(2) show ?thesis by auto
    qed
  qed
qed

lemma filter_remove1_other: "\<not> P x \<Longrightarrow> filter P (remove1 x xs) = filter P xs"
  by (induction xs) auto

lemma timersOf_dequeue_other:
  "notif (snd x) \<noteq> n \<Longrightarrow> timersOf n (p\<lparr>timers := remove1 x (timers p)\<rparr>) = timersOf n p"
  by (simp add: timersOf_def filter_remove1_other)

lemma timersOf_dequeue_own:
  "timersOf n p = [x] \<Longrightarrow> timersOf n (p\<lparr>timers := remove1 x (timers p)\<rparr>) = []"
  by (simp add: timersOf_def filter_remove1)

lemma timersOf_mem: "x \<in> set (timers p) \<Longrightarrow> notif (snd x) = n \<Longrightarrow> x \<in> set (timersOf n p)"
  by (simp add: timersOf_def)

lemma timersOf_subset: "x \<in> set (timersOf n p) \<Longrightarrow> x \<in> set (timers p)"
  by (simp add: timersOf_def)

lemma placed_clock [simp]: "placed n c (p\<lparr>clock := t\<rparr>) = placed n c p"
  by (simp add: placed_def)

lemma placed_timers [simp]: "placed n c (p\<lparr>timers := ts\<rparr>) = placed n c p"
  by (simp add: placed_def)

lemma timersOf_clock [simp]: "timersOf n (p\<lparr>clock := t\<rparr>) = timersOf n p"
  by (simp add: timersOf_def)

lemma inPhase_idle:
  assumes "inPhase n c ph p" and "\<And>a. ph = Waiting a \<Longrightarrow> T \<le> a"
  shows "inPhase n c ph (p\<lparr>clock := max (clock p) T\<rparr>)"
  using assms by (cases ph) auto

lemma dequeue_other:
  assumes "inPhase n c ph p" and "notif (snd x) \<noteq> n" and "\<And>a. ph = Waiting a \<Longrightarrow> fst x \<le> a"
  shows "inPhase n c ph (p\<lparr>timers := remove1 x (timers p), clock := max (clock p) (fst x)\<rparr>)"
  using assms by (cases ph) (auto simp: timersOf_dequeue_other)

lemma timersOf_closeClick:
  "m \<noteq> n \<Longrightarrow> timersOf n (closeClick m p) = timersOf n p"
  by (simp add: timersOf_def closeClick_def setTimeout_def)

lemma placed_closeClick [simp]: "placed n c (closeClick m p) = placed n c p"
  by (simp add: placed_def closeClick_def setTimeout_def)

lemma closeClick_fields [simp]:
  "fresh (closeClick m p) = fresh p" "home (closeClick m p) = home p"
  "clock (closeClick m p) = clock p" "children (closeClick m p) = children p"
  "attached (closeClick m p) = attached p"
  by (simp_all add: closeClick_def setTimeout_def)

lemma closeClick_other:
  "m \<noteq> n \<Longrightarrow> inPhase n c ph p \<Longrightarrow> inPhase n c ph (closeClick m p)"
  by (cases ph) (auto simp: timersOf_closeClick)

lemma fire_removal_fields:
  "fresh (snd (fire (Removal m) p)) = fresh p"
  "home (snd (fire (Removal m) p)) = home p"
  "timers (snd (fire (Removal m) p)) = timers p"
  "clock (snd (fire (Removal m) p)) = clock p"
  by (simp_all add: Let_def)

lemma fire_removal_children:
  "children (snd (fire (Removal m) p)) =
     (if m \<in> set (children p (home p m))
      then (children p)(home p m := removeAll m (children p (home p m)))
      else children p)"
  by (simp add: Let_def)

lemma fire_removal_attached:
  "attached (snd (fire (Removal m) p)) =
     (if m \<in> set (children p (home p m)) \<and> removeAll m (children p (home p m)) = [] \<and>
         attached p = Some (home p m)
      then None else attached p)"
  by (simp add: Let_def)

lemma fire_removal_timersOf: "timersOf n (snd (fire (Removal m) p)) = timersOf n p"
  by (simp add: timersOf_def fire_removal_fields del: fire.simps)

lemma removal_other_children:
  "m \<noteq> n \<Longrightarrow> n \<in> set (children (snd (fire (Removal m) p)) c') \<longleftrightarrow> n \<in> set (children p c')"
  by (simp add: fire_removal_children del: fire.simps)

lemma removal_other_placed:
  assumes "m \<noteq> n" and "placed n c p"
  shows "placed n c (snd (fire (Removal m) p))"
proof -
  from assms(2) have a: "attached p = Some c" and n: "n \<in> set (children p c)"
    by (simp_all add: placed_def)
  have "\<not> (removeAll m (children p (home p m)) = [] \<and> attached p = Some (home p m))"
  proof
    assume h: "removeAll m (children p (home p m)) = [] \<and> attached p = Some (home p m)"
    with a have "home p m = c" by simp
    with h have e: "removeAll m (children p c) = []" by simp
    from n assms(1) have "n \<in> set (removeAll m (children p c))" by simp
    with e show False by simp
  qed
  then have "attached (snd (fire (Removal m) p)) = Some c"
    using a by (simp add: fire_removal_attached del: fire.simps)
  then show ?thesis
    using assms(2) unfolding placed_def
    by (simp add: removal_other_children[OF assms(1)] del: fire.simps)
qed

lemma removal_other:
  assumes "m \<noteq> n" and "inPhase n c ph p"
  shows "inPhase n c ph (snd (fire (Removal m) p))"
  using assms(2) removal_other_placed[OF assms(1), of c p]
  by (cases ph)
    (simp_all add: fire_removal_fields fire_removal_timersOf removal_other_children[OF assms(1)]
      del: fire.simps)

lemma fire_other:
  assumes "notif k \<noteq> n" and "inPhase n c ph p"
  shows "inPhase n c ph (snd (fire k p))"
proof (cases k)
  case (AutoDismiss m)
  with assms show ?thesis by (auto simp: closeClick_other)
next
  case (Removal m)
  with assms removal_other[of m n c ph p] show ?thesis by (simp del: fire.simps)
qed

text \<open>The delays of the script are in the range of the timers.\<close>

lemma timerDelay_in_range: "0 \<le> d \<Longrightarrow> d < 2147483648 \<Longrightarrow> timerDelay d = d"
  by (simp add: timerDelay_def toInt32_def)

lemma timerDelay_nonneg [simp]: "0 \<le> timerDelay d"
  by (simp add: timerDelay_def)

lemma timerDelay_300: "timerDelay 300 = 300"
  by (simp add: timerDelay_in_range)

lemma timersOf_closeClick_own:
  "timersOf n p = [] \<Longrightarrow> timersOf n (closeClick n p) = [(clock p + 300, Removal n)]"
  by (simp add: timersOf_def closeClick_def setTimeout_def timerDelay_300)

lemma fire_dismiss_attached:
  "n \<in> set (children p (home p n)) \<Longrightarrow> snd (fire (AutoDismiss n) p) = closeClick n p"
  by simp

lemma own_dismissal:
  assumes "inPhase n c (Waiting a) p"
  shows "inPhase n c (Closing (a + 300))
    (snd (fire (AutoDismiss n)
      (p\<lparr>timers := remove1 (a, AutoDismiss n) (timers p), clock := max (clock p) a\<rparr>)))"
proof -
  let ?q = "p\<lparr>timers := remove1 (a, AutoDismiss n) (timers p), clock := max (clock p) a\<rparr>"
  from assms have own: "timersOf n p = [(a, AutoDismiss n)]" and pl: "placed n c p"
    and h: "home p n = c" and f: "n < fresh p" and cl: "clock p \<le> a"
    by simp_all
  have none: "timersOf n ?q = []" using own by (simp add: timersOf_dequeue_own)
  have "n \<in> set (children ?q (home ?q n))" using pl h by (simp add: placed_def)
  then have q: "snd (fire (AutoDismiss n) ?q) = closeClick n ?q" by (rule fire_dismiss_attached)
  have "clock ?q = a" using cl by simp
  with timersOf_closeClick_own[OF none]
  have t: "timersOf n (closeClick n ?q) = [(a + 300, Removal n)]" by simp
  have "inPhase n c (Closing (a + 300)) (closeClick n ?q)"
    using pl h f t by (simp del: timersOf_clock)
  with q show ?thesis by (simp only:)
qed

lemma own_removal:
  assumes "inPhase n c (Closing r) p"
  shows "inPhase n c Removed
    (snd (fire (Removal n)
      (p\<lparr>timers := remove1 (r, Removal n) (timers p), clock := max (clock p) r\<rparr>)))"
proof -
  let ?q = "p\<lparr>timers := remove1 (r, Removal n) (timers p), clock := max (clock p) r\<rparr>"
  from assms have own: "timersOf n p = [(r, Removal n)]" and pl: "placed n c p"
    and h: "home p n = c" and f: "n < fresh p"
    by simp_all
  have none: "timersOf n ?q = []" using own by (simp add: timersOf_dequeue_own)
  have hq: "home ?q n = c" "fresh ?q = fresh p" "children ?q = children p" using h by simp_all
  have mem: "n \<in> set (children p c)" using pl by (simp add: placed_def)
  have only: "n \<in> set (children p c') \<Longrightarrow> c' = c" for c'
    using pl by (simp add: placed_def)
  have ch: "children (snd (fire (Removal n) ?q)) = (children p)(c := removeAll n (children p c))"
    unfolding fire_removal_children hq using mem by simp
  have gone: "n \<notin> set (children (snd (fire (Removal n) ?q)) c')" for c'
    unfolding ch using only[of c'] by (cases "c' = c") auto
  have "timersOf n (snd (fire (Removal n) ?q)) = []"
    unfolding fire_removal_timersOf by (rule none)
  moreover have "fresh (snd (fire (Removal n) ?q)) = fresh p" "home (snd (fire (Removal n) ?q)) n = c"
    unfolding fire_removal_fields using hq by simp_all
  ultimately show ?thesis
    using gone f by (simp only: inPhase.simps) simp
qed

lemma later_idle:
  assumes "inPhase n c ph p" and "earliest (timers p) = Some x" and "T < fst x"
  shows "later T ph = ph"
proof (cases ph)
  case (Waiting a)
  with assms(1) have "(a, AutoDismiss n) \<in> set (timersOf n p)" by simp
  then have "fst x \<le> a" using earliest_least[OF assms(2)] timersOf_subset by fastforce
  with assms(3) Waiting show ?thesis by simp
next
  case (Closing r)
  with assms(1) have "(r, Removal n) \<in> set (timersOf n p)" by simp
  then have "fst x \<le> r" using earliest_least[OF assms(2)] timersOf_subset by fastforce
  with assms(3) Closing show ?thesis by simp
qed simp_all

lemma later_empty:
  assumes "inPhase n c ph p" and "timers p = []"
  shows "later T ph = ph"
  using assms by (cases ph) (simp_all add: timersOf_def)

lemma advance_phase: "inPhase n c ph p \<Longrightarrow> inPhase n c (later T ph) (advance T p)"
proof (induction T p arbitrary: ph rule: advance.induct)
  case (1 T p)
  show ?case
  proof (cases "earliest (timers p)")
    case None
    then have e: "timers p = []" by (simp add: earliest_None)
    have "advance T p = p\<lparr>clock := max (clock p) T\<rparr>"
      by (subst advance.simps) (simp add: None)
    moreover have "later T ph = ph" using "1.prems" e by (rule later_empty)
    moreover have "inPhase n c ph (p\<lparr>clock := max (clock p) T\<rparr>)"
      using "1.prems" e by (cases ph) (simp_all add: timersOf_def)
    ultimately show ?thesis by simp
  next
    case (Some x)
    show ?thesis
    proof (cases "T < fst x")
      case True
      have "advance T p = p\<lparr>clock := max (clock p) T\<rparr>"
        by (subst advance.simps) (simp add: Some True)
      moreover have l: "later T ph = ph" using "1.prems" Some True by (rule later_idle)
      moreover have "inPhase n c ph (p\<lparr>clock := max (clock p) T\<rparr>)"
      proof (rule inPhase_idle[OF "1.prems"])
        fix a assume "ph = Waiting a"
        with l show "T \<le> a" by (simp split: if_splits)
      qed
      ultimately show ?thesis by simp
    next
      case False
      let ?q = "snd (fire (snd x)
        (p\<lparr>timers := remove1 x (timers p), clock := max (clock p) (fst x)\<rparr>))"
      have adv: "advance T p = advance T ?q"
        by (subst advance.simps) (simp add: Some False)
      have x: "x \<in> set (timers p)" using Some by (rule earliest_in)
      have "\<exists>ph'. inPhase n c ph' ?q \<and> later T ph' = later T ph"
      proof (cases "notif (snd x) = n")
        case other: False
        have "inPhase n c ph (p\<lparr>timers := remove1 x (timers p), clock := max (clock p) (fst x)\<rparr>)"
        proof (rule dequeue_other[OF "1.prems" other])
          fix a assume "ph = Waiting a"
          with "1.prems" have "(a, AutoDismiss n) \<in> set (timersOf n p)" by simp
          then show "fst x \<le> a" using earliest_least[OF Some] timersOf_subset by fastforce
        qed
        with other have "inPhase n c ph ?q" by (rule fire_other)
        then show ?thesis by blast
      next
        case own: True
        then have mem: "x \<in> set (timersOf n p)" using x by (simp add: timersOf_mem)
        show ?thesis
        proof (cases ph)
          case (Waiting a)
          with "1.prems" mem have xa: "x = (a, AutoDismiss n)" by simp
          have "inPhase n c (Closing (a + 300)) ?q"
            unfolding xa fst_conv snd_conv using "1.prems"[unfolded Waiting] by (rule own_dismissal)
          moreover have "later T (Closing (a + 300)) = later T ph"
            using False xa Waiting by simp
          ultimately show ?thesis by blast
        next
          case (Closing r)
          with "1.prems" mem have xr: "x = (r, Removal n)" by simp
          have "inPhase n c Removed ?q"
            unfolding xr fst_conv snd_conv using "1.prems"[unfolded Closing] by (rule own_removal)
          moreover have "later T Removed = later T ph"
            using False xr Closing by simp
          ultimately show ?thesis by blast
        next
          case Removed
          with "1.prems" mem show ?thesis by simp
        next
          case Persistent
          with "1.prems" mem show ?thesis by simp
        qed
      qed
      then obtain ph' where ph': "inPhase n c ph' ?q" "later T ph' = later T ph" by blast
      from "1.IH"[OF Some False ph'(1)] ph'(2) adv show ?thesis by simp
    qed
  qed
qed

lemma showNotification_attached:
  assumes "attached p = Some c"
  shows "showNotification opts p =
    (fresh p,
     (if typeOf opts \<noteq> js ''error''
      then setTimeout (AutoDismiss (fresh p)) (durationOf opts) else (\<lambda>q. q))
       (p\<lparr>children := (children p)(c := children p c @ [fresh p]),
          home := (home p)(fresh p := c), fresh := Suc (fresh p)\<rparr>))"
  using assms by (simp add: showNotification_def container_def Let_def)

lemma showNotification_detached:
  assumes "attached p = None"
  shows "showNotification opts p =
    (Suc (fresh p),
     (if typeOf opts \<noteq> js ''error''
      then setTimeout (AutoDismiss (Suc (fresh p))) (durationOf opts) else (\<lambda>q. q))
       (p\<lparr>attached := Some (fresh p),
          children := (children p)(fresh p := [Suc (fresh p)]),
          home := (home p)(Suc (fresh p) := fresh p), fresh := Suc (Suc (fresh p))\<rparr>))"
  using assms by (simp add: showNotification_def container_def Let_def)

lemma setTimeout_fields [simp]:
  "fresh (setTimeout k d p) = fresh p" "home (setTimeout k d p) = home p"
  "clock (setTimeout k d p) = clock p" "children (setTimeout k d p) = children p"
  "attached (setTimeout k d p) = attached p"
  "timers (setTimeout k d p) = timers p @ [(clock p + timerDelay d, k)]"
  by (simp_all add: setTimeout_def)

lemma placed_setTimeout [simp]: "placed n c (setTimeout k d p) = placed n c p"
  by (simp add: placed_def)

lemma timersOf_setTimeout:
  "timersOf n (setTimeout k d p) =
     timersOf n p @ (if notif k = n then [(clock p + timerDelay d, k)] else [])"
  by (simp add: timersOf_def)

lemma setTimeout_other:
  "notif k \<noteq> n \<Longrightarrow> inPhase n c ph p \<Longrightarrow> inPhase n c ph (setTimeout k d p)"
  by (cases ph) (simp_all add: timersOf_setTimeout)

lemma append_child_other:
  assumes "inPhase n c ph p" and "m \<noteq> n" and "n < m" and "fresh p \<le> f"
    and "ph = Removed \<or> c0 = c"
  shows "inPhase n c ph
    (p\<lparr>children := (children p)(c0 := children p c0 @ [m]), home := (home p)(m := c0),
       fresh := f\<rparr>)"
  using assms by (cases ph) (auto simp: placed_def timersOf_def)

lemma show_other:
  assumes "inPhase n c ph p"
  shows "inPhase n c ph (snd (showNotification opts p))"
proof (cases "attached p")
  case (Some c0)
  have f: "n < fresh p" using assms by (cases ph) simp_all
  have c0: "ph = Removed \<or> c0 = c" using assms Some by (cases ph) (simp_all add: placed_def)
  have "inPhase n c ph
    (p\<lparr>children := (children p)(c0 := children p c0 @ [fresh p]),
       home := (home p)(fresh p := c0), fresh := Suc (fresh p)\<rparr>)"
    using assms f c0 by (intro append_child_other) simp_all
  then show ?thesis
    using f unfolding showNotification_attached[OF Some]
    by (simp add: setTimeout_other)
next
  case None
  have f: "n < fresh p" using assms by (cases ph) simp_all
  have r: "ph = Removed" using assms None by (cases ph) (simp_all add: placed_def)
  have "inPhase n c ph
    (p\<lparr>attached := Some (fresh p), children := (children p)(fresh p := [Suc (fresh p)]),
       home := (home p)(Suc (fresh p) := fresh p), fresh := Suc (Suc (fresh p))\<rparr>)"
    using assms f unfolding r by (auto simp: timersOf_def)
  then show ?thesis
    using f unfolding showNotification_detached[OF None]
    by (simp add: setTimeout_other)
qed

lemma event_other:
  assumes "e \<noteq> Click n" and "inPhase n c ph p"
  shows "inPhase n c ph (apply_event e p)"
proof (cases e)
  case (Click m)
  with assms show ?thesis by (simp add: closeClick_other)
next
  case (Show opts)
  with assms show ?thesis by (simp add: show_other)
qed

lemma later_later: "t \<le> T \<Longrightarrow> later T (later t ph) = later T ph"
  by (cases ph) auto

lemma run_phase:
  assumes "inPhase n c ph p" and "\<forall>x \<in> set es. snd x \<noteq> Click n"
  shows "inPhase n c (later T ph) (run es T p)"
  using assms
proof (induction es arbitrary: p ph)
  case Nil
  then show ?case by (simp add: advance_phase del: advance.simps)
next
  case (Cons x es)
  obtain t e where x: "x = (t, e)" by (cases x)
  show ?case
  proof (cases "t \<le> T")
    case True
    have "inPhase n c (later t ph) (advance t p)" using Cons.prems(1) by (rule advance_phase)
    moreover have "e \<noteq> Click n" using Cons.prems(2) x by simp
    ultimately have "inPhase n c (later t ph) (apply_event e (advance t p))"
      by (intro event_other)
    from Cons.IH[OF this] Cons.prems(2)
    have "inPhase n c (later T (later t ph)) (run es T (apply_event e (advance t p)))" by simp
    then show ?thesis using True x by (simp add: later_later del: advance.simps)
  next
    case False
    then show ?thesis
      using advance_phase[OF Cons.prems(1), of T] x by (simp del: advance.simps)
  qed
qed

lemma show_new:
  assumes "wellFormed p" and "showNotification opts p = (n, p')"
  shows "inPhase n (home p' n)
    (if typeOf opts = js ''error'' then Persistent
     else Waiting (clock p + timerDelay (durationOf opts))) p'"
proof (cases "attached p")
  case (Some c0)
  from assms(1) have old: "\<And>c. fresh p \<notin> set (children p c)"
    and tm: "\<And>x. x \<in> set (timers p) \<Longrightarrow> notif (snd x) \<noteq> fresh p"
    unfolding wellFormed_def by fastforce+
  have t: "filter (\<lambda>x. notif (snd x) = fresh p) (timers p) = []"
    using tm by (simp add: filter_empty_conv)
  from assms(2) show ?thesis
    unfolding showNotification_attached[OF Some]
    using Some old t by (auto simp: placed_def timersOf_def split: if_splits)
next
  case None
  from assms(1) have old: "\<And>c. Suc (fresh p) \<notin> set (children p c)"
    and tm: "\<And>x. x \<in> set (timers p) \<Longrightarrow> notif (snd x) \<noteq> Suc (fresh p)"
    unfolding wellFormed_def by fastforce+
  have t: "filter (\<lambda>x. notif (snd x) = Suc (fresh p)) (timers p) = []"
    using tm by (simp add: filter_empty_conv)
  from assms(2) show ?thesis
    unfolding showNotification_detached[OF None]
    using old t by (auto simp: placed_def timersOf_def split: if_splits)
qed

lemma inDocument_placed: "placed n c p \<Longrightarrow> inDocument p n"
  by (simp add: placed_def inDocument_def)

lemma inDocument_removed: "\<forall>c. n \<notin> set (children p c) \<Longrightarrow> \<not> inDocument p n"
  by (simp add: inDocument_def split: option.splits)

subsection \<open>Every page that the script reaches is well formed\<close>

lemma wellFormed_setTimeout:
  "wellFormed p \<Longrightarrow> notif k < fresh p \<Longrightarrow> wellFormed (setTimeout k d p)"
  by (auto simp: wellFormed_def)

lemma wellFormed_closeClick:
  "wellFormed p \<Longrightarrow> n \<in> set (children p c) \<Longrightarrow> wellFormed (closeClick n p)"
  unfolding closeClick_def by (rule wellFormed_setTimeout) (auto simp: wellFormed_def)

lemma wellFormed_dequeue:
  "wellFormed p \<Longrightarrow> wellFormed (p\<lparr>timers := remove1 x (timers p), clock := t\<rparr>)"
  by (auto simp: wellFormed_def dest: notin_set_remove1)

lemma wellFormed_fire: "wellFormed p \<Longrightarrow> wellFormed (snd (fire k p))"
proof (cases k)
  case (AutoDismiss n)
  assume "wellFormed p"
  with AutoDismiss show ?thesis by (auto intro: wellFormed_closeClick)
next
  case (Removal n)
  assume "wellFormed p"
  then show ?thesis
    unfolding Removal wellFormed_def
    by (auto simp: fire_removal_fields fire_removal_children simp del: fire.simps)
qed

lemma wellFormed_advance: "wellFormed p \<Longrightarrow> wellFormed (advance T p)"
proof (induction T p rule: advance.induct)
  case (1 T p)
  show ?case
  proof (cases "earliest (timers p)")
    case None
    have "advance T p = p\<lparr>clock := max (clock p) T\<rparr>"
      by (subst advance.simps) (simp add: None)
    with "1.prems" show ?thesis by (simp add: wellFormed_def)
  next
    case (Some x)
    show ?thesis
    proof (cases "T < fst x")
      case True
      have "advance T p = p\<lparr>clock := max (clock p) T\<rparr>"
        by (subst advance.simps) (simp add: Some True)
      with "1.prems" show ?thesis by (simp add: wellFormed_def)
    next
      case False
      let ?q = "snd (fire (snd x)
        (p\<lparr>timers := remove1 x (timers p), clock := max (clock p) (fst x)\<rparr>))"
      have adv: "advance T p = advance T ?q"
        by (subst advance.simps) (simp add: Some False)
      have "wellFormed ?q"
        using "1.prems" by (intro wellFormed_fire wellFormed_dequeue)
      from "1.IH"[OF Some False this] adv show ?thesis by simp
    qed
  qed
qed

lemma wellFormed_show: "wellFormed p \<Longrightarrow> wellFormed (snd (showNotification opts p))"
proof (cases "attached p")
  case (Some c)
  assume "wellFormed p"
  then show ?thesis
    unfolding showNotification_attached[OF Some] wellFormed_def
    by (auto simp: less_Suc_eq split: if_splits)
next
  case None
  assume "wellFormed p"
  then show ?thesis
    unfolding showNotification_detached[OF None] wellFormed_def
    by (auto simp: less_Suc_eq split: if_splits)
qed

lemma wellFormed_event: "wellFormed p \<Longrightarrow> wellFormed (apply_event e p)"
  by (cases e) (auto intro: wellFormed_closeClick wellFormed_show)

lemma wellFormed_run: "wellFormed p \<Longrightarrow> wellFormed (run es T p)"
proof (induction es arbitrary: p)
  case Nil
  then show ?case by (simp add: wellFormed_advance del: advance.simps)
next
  case (Cons x es)
  obtain t e where x: "x = (t, e)" by (cases x)
  from Cons.prems have "wellFormed (apply_event e (advance t p))"
    by (intro wellFormed_event wellFormed_advance)
  from Cons.IH[OF this] Cons.prems show ?case
    unfolding x by (simp add: wellFormed_advance del: advance.simps)
qed

lemma wellFormed_initialPage: "wellFormed initialPage"
  by (simp add: wellFormed_def initialPage_def)

lemma show_on_initialPage:
  "fst (showNotification opts initialPage) = 1"
  "clock initialPage = 0"
  by (simp_all add: showNotification_def container_def initialPage_def Let_def split_def)

lemma example_options:
  "opt_type (contactSuccess f) = Some (js ''success'')" "opt_duration (contactSuccess f) = None"
  "opt_type (cateringSuccess env g) = Some (js ''success'')"
  "opt_duration (cateringSuccess env g) = Some 10000"
  "opt_type (validationError errs) = Some (js ''error'')"
  "opt_duration (validationError errs) = Some 0"
  "opt_type longNotice = Some (js ''info'')" "opt_duration longNotice = Some 2147483648"
  by (simp_all add: contactSuccess_def cateringSuccess_def validationError_def longNotice_def)

text \<open>
  The life of a notification from its making on, whatever its duration: the timer of the
  dismissal is due after the delay that the platform makes of the duration.
\<close>

lemma notification_phases:
  assumes "wellFormed p" and "showNotification opts p = (n, p')"
    and "\<forall>x \<in> set es. snd x \<noteq> Click n"
  shows "inPhase n (home p' n)
    (later T (if typeOf opts = js ''error'' then Persistent
              else Waiting (clock p + timerDelay (durationOf opts)))) (run es T p')"
  using run_phase[OF show_new[OF assms(1,2)] assms(3)] .

lemma typeOf_error: "typeOf opts = js ''error'' \<longleftrightarrow> opt_type opts = Some (js ''error'')"
  by (simp add: typeOf_def js_def split: option.splits)

lemma durationOf_cases:
  "opt_duration opts = Some d \<or> opt_duration opts = None \<and> d = 5000 \<Longrightarrow> durationOf opts = d"
  by (auto simp: durationOf_def)

section \<open>The claims\<close>

text \<open>
  C1, as amended. On the contact path \<open>isValid\<close> holds exactly when \<open>errors\<close> is
  empty. On the catering path \<open>isValid\<close> holds exactly when \<open>errors\<close> holds no message
  but the advice to book 7 days ahead, which is pushed without clearing \<open>isValid\<close>; a
  validation that fails has a message on both paths.
\<close>

theorem valid_iff_no_failure_message:
  "(isValid (contactValidate f) \<longleftrightarrow> errors (contactValidate f) = []) \<and>
   (isValid (cateringValidate env g) \<longleftrightarrow>
      filter (\<lambda>m. m \<noteq> msgAdvance) (errors (cateringValidate env g)) = []) \<and>
   (\<not> isValid (cateringValidate env g) \<longrightarrow> errors (cateringValidate env g) \<noteq> [])"
proof -
  have contact: "isValid (contactValidate f) \<longleftrightarrow> errors (contactValidate f) = []"
    unfolding contactValidate_isValid contactValidate_errors by auto
  have "filter (\<lambda>m. m \<noteq> msgAdvance) (dateMessages env d) = [] \<longleftrightarrow>
      \<not> falsy d \<and> \<not> dateLess (newDate env d) (setHours0 env (now env))" for d
    using msg_distinct by (auto simp: dateMessages_def)
  then have catering: "isValid (cateringValidate env g) \<longleftrightarrow>
      filter (\<lambda>m. m \<noteq> msgAdvance) (errors (cateringValidate env g)) = []"
    unfolding cateringValidate_isValid cateringValidate_errors
    using msg_distinct by auto
  have "filter (\<lambda>m. m \<noteq> msgAdvance) (errors (cateringValidate env g)) \<noteq> [] \<Longrightarrow>
      errors (cateringValidate env g) \<noteq> []"
    by auto
  with contact catering show ?thesis by blast
qed

theorem valid_iff_no_failure_message_witness:
  "\<not> isValid (cateringValidate sampleEnv noCateringFields) \<and>
   errors (cateringValidate sampleEnv noCateringFields) \<noteq> []"
  using valid_iff_no_failure_message[of joFields sampleEnv noCateringFields]
  by (simp add: noCateringFields_result)

text \<open>
  C1 as stated fails: the enquiry of Anna Smith for Thursday 6 November 2025, sent on
  Monday 3 November, is valid and its \<open>errors\<close> list holds the advice.
\<close>

theorem advice_only_counterexample:
  "readCatering (annaDocument ''2025-11-06'') = Inr (annaFields ''2025-11-06'') \<and>
   isValid (cateringValidate sampleEnv (annaFields ''2025-11-06'')) \<and>
   errors (cateringValidate sampleEnv (annaFields ''2025-11-06'')) = [msgAdvance] \<and>
   errors (cateringValidate sampleEnv (annaFields ''2025-11-06'')) \<noteq> []"
  by (simp add: readCatering_anna anna_thursday)

text \<open>
  C2. For a valid catering submission the quote of lines 193 to 197 has the cost per person
  250 for \<open>wedding\<close>, 180 for \<open>corporate\<close> and 150 for every other event type, and
  the total \<open>guests * costPerPerson\<close>. When the event type is a string, as that of a
  form control is, the submission ends in the confirmation whose summary holds this
  quote; an event type that is a Number, for which the quote is 150 a person, has no
  \<open>charAt\<close> for the text of the summary (line 210), and the handler throws there.
\<close>

theorem catering_quote:
  assumes "readCatering doc = Inr f" and "isValid (cateringValidate env f)"
  shows "\<exists>q. cateringSubmit env doc =
            (case k_eventType f of
               Str s \<Rightarrow> Inr [PreventDefault, ShowNotification (cateringSuccess env f), FormReset]
             | _ \<Rightarrow> Inl TypeError) \<and>
          opt_message (cateringSuccess env f) = CateringSummary q \<and>
          sum_guests q = k_guests f \<and>
          (k_eventType f = Str (js ''wedding'') \<longrightarrow> sum_costPerPerson q = 250) \<and>
          (k_eventType f = Str (js ''corporate'') \<longrightarrow> sum_costPerPerson q = 180) \<and>
          (k_eventType f \<noteq> Str (js ''wedding'') \<and> k_eventType f \<noteq> Str (js ''corporate'') \<longrightarrow>
             sum_costPerPerson q = 150) \<and>
          sum_totalCost q = k_guests f * sum_costPerPerson q"
  using cateringSubmit_valid[OF assms]
  by (simp add: cateringSuccess_def costPerPerson_def totalCost_def js_def)

theorem catering_quote_witness:
  "readCatering (annaDocument ''2025-12-03'') = Inr (annaFields ''2025-12-03'') \<and>
   isValid (cateringValidate sampleEnv (annaFields ''2025-12-03'')) \<and>
   cateringSubmit sampleEnv (annaDocument ''2025-12-03'') =
     Inr [PreventDefault, ShowNotification (cateringSuccess sampleEnv (annaFields ''2025-12-03'')),
          FormReset] \<and>
   (\<exists>q. opt_message (cateringSuccess sampleEnv (annaFields ''2025-12-03'')) = CateringSummary q \<and>
        sum_costPerPerson q = 250 \<and> sum_totalCost q = 25000)"
proof -
  have r: "readCatering (annaDocument ''2025-12-03'') = Inr (annaFields ''2025-12-03'')"
    by (rule readCatering_anna)
  have v: "isValid (cateringValidate sampleEnv (annaFields ''2025-12-03''))"
    by (simp add: anna_december)
  have w: "k_eventType (annaFields ''2025-12-03'') = Str (js ''wedding'')"
    "k_guests (annaFields ''2025-12-03'') = 100"
    by (simp_all add: annaFields_def)
  from catering_quote[OF r v] w r v show ?thesis by auto
qed

text \<open>
  C3, as amended. Every rule of a form is checked and every failure adds its message:
  \<open>errors\<close> is the list of the messages of the rules that fail, in the order of the
  rules, on both paths. The contact submission with name \<open>Jo\<close>, email \<open>bad\<close>, no subject and message
  \<open>hi\<close> has exactly 3 messages (email, subject, message) and is not valid: \<open>Jo\<close> has
  the 2 characters that the name rule asks for.
\<close>

theorem all_failures_collected:
  "errors (contactValidate f) =
     (if length (c_name f) < 2 then [msgName] else []) @
     (if \<not> test emailPattern (c_email f) then [msgEmail] else []) @
     (if c_phone f \<noteq> [] \<and> \<not> test phonePattern (c_phone f) then [msgContactPhone] else []) @
     (if falsy (c_subject f) then [msgSubject] else []) @
     (if length (c_message f) < 10 then [msgMessage] else []) \<and>
   errors (cateringValidate env g) =
     (if length (k_name g) < 2 then [msgName] else []) @
     (if \<not> test emailPattern (k_email g) then [msgEmail] else []) @
     (if \<not> test phonePattern (k_phone g) then [msgCateringPhone] else []) @
     (if falsy (k_eventType g) then [msgEventType] else []) @
     (if k_guests g < 10 \<or> k_guests g > 500 then [msgGuests] else []) @
     dateMessages env (k_date g) \<and>
   readContact joDocument = Inr joFields \<and>
   errors (contactValidate joFields) = [msgEmail, msgSubject, msgMessage] \<and>
   length (errors (contactValidate joFields)) = 3 \<and>
   \<not> isValid (contactValidate joFields)"
proof -
  have "length (errors (contactValidate joFields)) = 3"
    by (simp add: jo_errors)
  with contactValidate_errors[of f] cateringValidate_errors[of env g] readContact_jo jo_errors
    jo_invalid
  show ?thesis by blast
qed

text \<open>
  C3 as stated fails: the example has 3 messages, not 4, and none for the name.
\<close>

theorem jo_example_counterexample:
  "length (errors (contactValidate joFields)) \<noteq> 4 \<and>
   msgName \<notin> set (errors (contactValidate joFields))"
  using msg_distinct by (simp add: jo_errors)

text \<open>
  C4. When validation fails, on either path, the handler shows one notification, of type
  \<open>error\<close>, with duration 0 and with the whole \<open>errors\<close> list; it sets no
  \<open>mailto:\<close> link, shows no success notification and does not reset the form.
\<close>

theorem invalid_submission_shows_errors_only:
  "(readContact doc = Inr f \<and> \<not> isValid (contactValidate f) \<longrightarrow>
      (\<exists>effs n. contactSubmit doc = Inr effs \<and> notifications effs = [n] \<and>
         opt_type n = Some (js ''error'') \<and> opt_duration n = Some 0 \<and>
         opt_list n = Some (errors (contactValidate f)) \<and>
         dispatched effs = [] \<and> FormReset \<notin> set effs)) \<and>
   (readCatering doc = Inr g \<and> \<not> isValid (cateringValidate env g) \<longrightarrow>
      (\<exists>effs n. cateringSubmit env doc = Inr effs \<and> notifications effs = [n] \<and>
         opt_type n = Some (js ''error'') \<and> opt_duration n = Some 0 \<and>
         opt_list n = Some (errors (cateringValidate env g)) \<and>
         dispatched effs = [] \<and> FormReset \<notin> set effs))"
  by (auto simp: contactSubmit_invalid cateringSubmit_invalid validationError_def)

theorem invalid_submission_shows_errors_only_witness:
  "readContact joDocument = Inr joFields \<and> \<not> isValid (contactValidate joFields) \<and>
   (\<exists>effs n. contactSubmit joDocument = Inr effs \<and> notifications effs = [n] \<and>
      opt_type n = Some (js ''error'') \<and> opt_duration n = Some 0 \<and>
      opt_list n = Some [msgEmail, msgSubject, msgMessage] \<and>
      dispatched effs = [] \<and> FormReset \<notin> set effs) \<and>
   readCatering noDocument = Inr noCateringFields \<and>
   \<not> isValid (cateringValidate sampleEnv noCateringFields) \<and>
   (\<exists>effs n. cateringSubmit sampleEnv noDocument = Inr effs \<and> notifications effs = [n] \<and>
      opt_type n = Some (js ''error'') \<and> opt_duration n = Some 0 \<and>
      opt_list n =
        Some [msgName, msgEmail, msgCateringPhone, msgEventType, msgGuests, msgDate] \<and>
      dispatched effs = [] \<and> FormReset \<notin> set effs)"
proof -
  have c: "\<not> isValid (cateringValidate sampleEnv noCateringFields)"
    "errors (cateringValidate sampleEnv noCateringFields) =
      [msgName, msgEmail, msgCateringPhone, msgEventType, msgGuests, msgDate]"
    by (simp_all add: noCateringFields_result)
  from invalid_submission_shows_errors_only[of joDocument joFields noCateringFields sampleEnv]
    invalid_submission_shows_errors_only[of noDocument joFields noCateringFields sampleEnv]
    readContact_jo jo_invalid jo_errors readCatering_none c
  show ?thesis by simp
qed

text \<open>
  C5, as amended. A notification of type \<open>error\<close> has no timer: it stays in the
  document however long the event loop runs, as long as its close button is not clicked,
  whatever its duration. A notification of any other type whose duration is \<open>d\<close>, the
  \<open>duration\<close> that is passed or 5000 when none is, with \<open>0 \<le> d < 2^31\<close>, made at the
  time \<open>clock p\<close>, waits until \<open>clock p + d\<close>, when its timer clicks the close button; the
  removal is then due 300 ms later, and from \<open>clock p + d + 300\<close> on the notification is
  out of the document. Other notifications may be shown and closed in the meantime.
\<close>

theorem notification_lifetime:
  assumes "wellFormed p" and "showNotification opts p = (n, p')"
    and "\<forall>x \<in> set es. snd x \<noteq> Click n"
  shows
   "(opt_type opts = Some (js ''error'') \<longrightarrow>
       inDocument (run es T p') n \<and> timersOf n (run es T p') = []) \<and>
    (opt_type opts \<noteq> Some (js ''error'') \<and>
     (opt_duration opts = Some d \<or> opt_duration opts = None \<and> d = 5000) \<and>
     0 \<le> d \<and> d < 2147483648 \<longrightarrow>
       (T < clock p + d \<longrightarrow>
          inDocument (run es T p') n \<and>
          timersOf n (run es T p') = [(clock p + d, AutoDismiss n)]) \<and>
       (clock p + d \<le> T \<and> T < clock p + d + 300 \<longrightarrow>
          inDocument (run es T p') n \<and>
          timersOf n (run es T p') = [(clock p + d + 300, Removal n)]) \<and>
       (clock p + d + 300 \<le> T \<longrightarrow>
          \<not> inDocument (run es T p') n \<and> timersOf n (run es T p') = []))"
proof (intro conjI impI)
  let ?c = "home p' n"
  let ?r = "run es T p'"
  note phases = notification_phases[OF assms, of T]
  {
    assume "opt_type opts = Some (js ''error'')"
    then have "typeOf opts = js ''error''" by (simp add: typeOf_error)
    with phases have "inPhase n ?c Persistent ?r" by simp
    then show "inDocument ?r n" "timersOf n ?r = []"
      by (auto intro: inDocument_placed)
  }
  let ?a = "clock p + d"
  assume d: "opt_type opts \<noteq> Some (js ''error'') \<and>
     (opt_duration opts = Some d \<or> opt_duration opts = None \<and> d = 5000) \<and>
     0 \<le> d \<and> d < 2147483648"
  then have "typeOf opts \<noteq> js ''error''" by (simp add: typeOf_error)
  moreover from d have "durationOf opts = d" by (simp add: durationOf_cases)
  moreover from d have "timerDelay d = d" by (simp add: timerDelay_in_range)
  ultimately have ph: "inPhase n ?c (later T (Waiting ?a)) ?r"
    using phases by simp
  {
    assume "T < ?a"
    with ph have "inPhase n ?c (Waiting ?a) ?r" by simp
    then show "inDocument ?r n" "timersOf n ?r = [(?a, AutoDismiss n)]"
      by (auto intro: inDocument_placed)
  }
  {
    assume "?a \<le> T \<and> T < ?a + 300"
    with ph have "inPhase n ?c (Closing (?a + 300)) ?r" by simp
    then show "inDocument ?r n" "timersOf n ?r = [(?a + 300, Removal n)]"
      by (auto intro: inDocument_placed)
  }
  {
    assume "?a + 300 \<le> T"
    with ph have "inPhase n ?c Removed ?r" by simp
    then show "\<not> inDocument ?r n" "timersOf n ?r = []"
      by (auto intro: inDocument_removed[THEN notE])
  }
qed

text \<open>
  The confirmation of a catering enquiry, with the duration 10000, is in the document up
  to 10299 ms and out of it from 10300 ms on; the confirmation of a contact message, with
  no duration and so with 5000, up to 5299 ms; the error notification is there after a
  day, while another notification has come and has been closed.
\<close>

theorem notification_lifetime_witness:
  "wellFormed initialPage \<and>
   inDocument (run [] 9999
     (snd (showNotification (cateringSuccess sampleEnv (annaFields ''2025-12-03'')) initialPage))) 1 \<and>
   timersOf 1 (run [] 9999
     (snd (showNotification (cateringSuccess sampleEnv (annaFields ''2025-12-03'')) initialPage))) =
     [(10000, AutoDismiss 1)] \<and>
   timersOf 1 (run [] 10000
     (snd (showNotification (cateringSuccess sampleEnv (annaFields ''2025-12-03'')) initialPage))) =
     [(10300, Removal 1)] \<and>
   inDocument (run [] 10299
     (snd (showNotification (cateringSuccess sampleEnv (annaFields ''2025-12-03'')) initialPage))) 1 \<and>
   \<not> inDocument (run [] 10300
     (snd (showNotification (cateringSuccess sampleEnv (annaFields ''2025-12-03'')) initialPage))) 1 \<and>
   inDocument (run [] 4999 (snd (showNotification (contactSuccess joFields) initialPage))) 1 \<and>
   inDocument (run [] 5299 (snd (showNotification (contactSuccess joFields) initialPage))) 1 \<and>
   \<not> inDocument (run [] 5300 (snd (showNotification (contactSuccess joFields) initialPage))) 1 \<and>
   inDocument (run [(2000, Show (contactSuccess joFields)), (3000, Click 2)] 86400000
     (snd (showNotification (validationError [msgName]) initialPage))) 1"
proof -
  let ?k = "cateringSuccess sampleEnv (annaFields ''2025-12-03'')"
  have k: "showNotification ?k initialPage = (1, snd (showNotification ?k initialPage))"
    using show_on_initialPage(1) by (metis prod.collapse)
  have s: "showNotification (contactSuccess joFields) initialPage =
      (1, snd (showNotification (contactSuccess joFields) initialPage))"
    using show_on_initialPage(1) by (metis prod.collapse)
  have e: "showNotification (validationError [msgName]) initialPage =
      (1, snd (showNotification (validationError [msgName]) initialPage))"
    using show_on_initialPage(1) by (metis prod.collapse)
  have no: "\<forall>x \<in> set []. snd x \<noteq> Click 1" by simp
  have no2: "\<forall>x \<in> set [(2000, Show (contactSuccess joFields)), (3000, Click 2)].
      snd x \<noteq> Click 1" by simp
  have t: "Some (js ''success'') \<noteq> Some (js ''error'')" by (simp add: js_def)
  from notification_lifetime[OF wellFormed_initialPage k no, of 9999 10000]
    notification_lifetime[OF wellFormed_initialPage k no, of 10000 10000]
    notification_lifetime[OF wellFormed_initialPage k no, of 10299 10000]
    notification_lifetime[OF wellFormed_initialPage k no, of 10300 10000]
    notification_lifetime[OF wellFormed_initialPage s no, of 4999 5000]
    notification_lifetime[OF wellFormed_initialPage s no, of 5299 5000]
    notification_lifetime[OF wellFormed_initialPage s no, of 5300 5000]
    notification_lifetime[OF wellFormed_initialPage e no2, of 86400000 0]
    wellFormed_initialPage show_on_initialPage(2) example_options t
  show ?thesis by (simp del: run.simps)
qed

text \<open>
  C5 as stated fails for a long duration: a notice of type \<open>info\<close> with the duration
  \<open>2^31\<close> ms is dismissed at once, its removal due at 300 ms, and is out of the document
  300 ms after its making, not \<open>2^31\<close> ms after it.
\<close>

theorem long_duration_counterexample:
  "wellFormed initialPage \<and>
   opt_type longNotice = Some (js ''info'') \<and> opt_duration longNotice = Some 2147483648 \<and>
   fst (showNotification longNotice initialPage) = 1 \<and>
   timersOf 1 (run [] 0 (snd (showNotification longNotice initialPage))) = [(300, Removal 1)] \<and>
   \<not> inDocument (run [] 300 (snd (showNotification longNotice initialPage))) 1 \<and>
   timersOf 1 (run [] 300 (snd (showNotification longNotice initialPage))) = []"
proof -
  have s: "showNotification longNotice initialPage =
      (1, snd (showNotification longNotice initialPage))"
    using show_on_initialPage(1) by (metis prod.collapse)
  have no: "\<forall>x \<in> set []. snd x \<noteq> Click 1" by simp
  have t: "typeOf longNotice \<noteq> js ''error''" "durationOf longNotice = 2147483648"
    by (simp_all add: typeOf_def durationOf_def longNotice_def js_def)
  have d: "timerDelay 2147483648 = 0"
    by (simp add: timerDelay_def toInt32_def)
  from notification_phases[OF wellFormed_initialPage s no, of 0]
  have "inPhase 1 (home (snd (showNotification longNotice initialPage)) 1) (Closing 300)
      (run [] 0 (snd (showNotification longNotice initialPage)))"
    by (simp add: t d show_on_initialPage(2))
  moreover from notification_phases[OF wellFormed_initialPage s no, of 300]
  have "inPhase 1 (home (snd (showNotification longNotice initialPage)) 1) Removed
      (run [] 300 (snd (showNotification longNotice initialPage)))"
    by (simp add: t d show_on_initialPage(2))
  ultimately show ?thesis
    using wellFormed_initialPage show_on_initialPage(1) example_options
    by (auto intro: inDocument_removed[THEN notE])
qed

text \<open>
  C6, at the input where the code leaves the claim. \<open>tomorrow\<close> is no date:
  \<open>new Date('tomorrow')\<close> is invalid, both comparisons with \<open>NaN\<close> are false, the date
  rule adds no message and the enquiry is confirmed.
\<close>

theorem unparsed_date_is_accepted:
  "readCatering (annaDocument ''tomorrow'') = Inr (annaFields ''tomorrow'') \<and>
   \<not> falsy (k_date (annaFields ''tomorrow'')) \<and>
   dateParse sampleEnv (js ''tomorrow'') = None \<and>
   newDate sampleEnv (k_date (annaFields ''tomorrow'')) = None \<and>
   cateringValidate sampleEnv (annaFields ''tomorrow'') = \<lparr>isValid = True, errors = []\<rparr> \<and>
   cateringSubmit sampleEnv (annaDocument ''tomorrow'') =
     Inr [PreventDefault,
          ShowNotification (cateringSuccess sampleEnv (annaFields ''tomorrow'')), FormReset]"
proof -
  have "isValid (cateringValidate sampleEnv (annaFields ''tomorrow''))"
    by (simp add: anna_tomorrow)
  from cateringSubmit_valid[OF readCatering_anna this] show ?thesis
    by (simp add: readCatering_anna anna_tomorrow)
      (simp add: annaFields_def newDate_def falsy_def sampleEnv_def sampleDates_def js_def)
qed

text \<open>
  C7, as amended. On the contact path an empty phone adds no message and a phone that is
  not empty must have 10 to 15 characters out of digits, white space (every character of
  the class \<open>\s\<close>, a tab as well as a space), hyphen, parentheses and plus sign. On the
  catering path the same pattern is tested always, so an empty phone fails validation.
\<close>

theorem phone_rule_asymmetry:
  "(c_phone f = [] \<longrightarrow> msgContactPhone \<notin> set (errors (contactValidate f))) \<and>
   (c_phone f \<noteq> [] \<longrightarrow>
      (msgContactPhone \<in> set (errors (contactValidate f)) \<longleftrightarrow>
         \<not> phoneShape phoneChar (c_phone f)) \<and>
      (\<not> phoneShape phoneChar (c_phone f) \<longrightarrow> \<not> isValid (contactValidate f))) \<and>
   (msgCateringPhone \<in> set (errors (cateringValidate env g)) \<longleftrightarrow>
      \<not> phoneShape phoneChar (k_phone g)) \<and>
   (\<not> phoneShape phoneChar (k_phone g) \<longrightarrow> \<not> isValid (cateringValidate env g)) \<and>
   (k_phone g = [] \<longrightarrow>
      msgCateringPhone \<in> set (errors (cateringValidate env g)) \<and>
      \<not> isValid (cateringValidate env g)) \<and>
   (phoneShape specPhoneChar s \<longrightarrow> phoneShape phoneChar s)"
proof -
  have d: "msgCateringPhone \<notin> set (dateMessages env (k_date g))"
    using msg_distinct by (auto simp: dateMessages_def)
  have contact: "msgContactPhone \<in> set (errors (contactValidate f)) \<longleftrightarrow>
      c_phone f \<noteq> [] \<and> \<not> phoneShape phoneChar (c_phone f)"
    unfolding contactValidate_errors test_phonePattern using msg_distinct by auto
  have catering: "msgCateringPhone \<in> set (errors (cateringValidate env g)) \<longleftrightarrow>
      \<not> phoneShape phoneChar (k_phone g)"
    unfolding cateringValidate_errors test_phonePattern using msg_distinct d by auto
  have empty: "\<not> phoneShape phoneChar []"
    by (simp add: phoneShape_def)
  have sub: "phoneShape specPhoneChar s \<Longrightarrow> phoneShape phoneChar s"
    unfolding phoneShape_def list_all_iff by (auto simp: specPhoneChar_def phoneChar_def isWhiteSpace_def)
  show ?thesis
    using contact catering empty sub
    by (auto simp: contactValidate_isValid cateringValidate_isValid test_phonePattern)
qed

theorem phone_rule_asymmetry_witness:
  "c_phone joFields = [] \<and> msgContactPhone \<notin> set (errors (contactValidate joFields)) \<and>
   c_phone tabbedFields \<noteq> [] \<and> phoneShape phoneChar (c_phone tabbedFields) \<and>
   msgContactPhone \<notin> set (errors (contactValidate tabbedFields)) \<and>
   k_phone noCateringFields = [] \<and>
   \<not> isValid (cateringValidate sampleEnv noCateringFields)"
proof -
  have 1: "c_phone joFields = []" by (simp add: joFields_def)
  have 2: "c_phone tabbedFields \<noteq> []" by (simp add: tabbedFields_def tabbedPhone_def js_def)
  have 3: "phoneShape phoneChar (c_phone tabbedFields)"
    by (simp add: tabbedFields_def tabbedPhone_def phoneShape_def char_simps)
  have 4: "k_phone noCateringFields = []" by (simp add: noCateringFields_def)
  from phone_rule_asymmetry[of joFields sampleEnv noCateringFields "[]"]
    phone_rule_asymmetry[of tabbedFields sampleEnv noCateringFields "[]"] 1 2 3 4
  show ?thesis by simp
qed

text \<open>
  C7 as stated fails: \<open>082<TAB>123<TAB>4567\<close> has characters that are neither digit,
  space, hyphen, parenthesis nor plus sign, and the contact form accepts it.
\<close>

theorem tabbed_phone_counterexample:
  "c_phone tabbedFields \<noteq> [] \<and> \<not> phoneShape specPhoneChar (c_phone tabbedFields) \<and>
   test phonePattern (c_phone tabbedFields) \<and>
   contactValidate tabbedFields = \<lparr>isValid = True, errors = []\<rparr>"
  by (simp add: tabbedFields_def tabbedPhone_def phoneShape_def specPhoneChar_def
      contactValidate_def failIf_def start_def emailPattern_def phonePattern_def falsy_def
      char_simps)

text \<open>
  C8. A string passes the email rule exactly when it has the shape \<open>local@domain.tld\<close>;
  a string without the shape fails validation with the email message, on both paths.
\<close>

theorem email_rule:
  "(test emailPattern s \<longleftrightarrow> emailShape s) \<and>
   (msgEmail \<in> set (errors (contactValidate f)) \<longleftrightarrow> \<not> emailShape (c_email f)) \<and>
   (\<not> emailShape (c_email f) \<longrightarrow> \<not> isValid (contactValidate f)) \<and>
   (msgEmail \<in> set (errors (cateringValidate env g)) \<longleftrightarrow> \<not> emailShape (k_email g)) \<and>
   (\<not> emailShape (k_email g) \<longrightarrow> \<not> isValid (cateringValidate env g))"
proof -
  have d: "msgEmail \<notin> set (dateMessages env (k_date g))"
    using msg_distinct by (auto simp: dateMessages_def)
  have contact: "msgEmail \<in> set (errors (contactValidate f)) \<longleftrightarrow> \<not> emailShape (c_email f)"
    unfolding contactValidate_errors test_emailPattern using msg_distinct by auto
  have catering: "msgEmail \<in> set (errors (cateringValidate env g)) \<longleftrightarrow> \<not> emailShape (k_email g)"
    unfolding cateringValidate_errors test_emailPattern using msg_distinct d by auto
  show ?thesis
    using contact catering
    by (auto simp: contactValidate_isValid cateringValidate_isValid test_emailPattern)
qed

theorem email_rule_witness:
  "\<not> emailShape (c_email joFields) \<and> \<not> isValid (contactValidate joFields) \<and>
   msgEmail \<in> set (errors (contactValidate joFields)) \<and>
   emailShape (js ''a@b.com'') \<and>
   msgEmail \<notin> set (errors (cateringValidate sampleEnv (annaFields ''2025-12-03'')))"
proof -
  have 1: "\<not> test emailPattern (c_email joFields)"
    by (simp add: joFields_def emailPattern_def char_simps)
  have 2: "test emailPattern (js ''a@b.com'')"
    by (simp add: emailPattern_def char_simps)
  have 3: "k_email (annaFields ''2025-12-03'') = js ''a@b.com''"
    by (simp add: annaFields_def)
  from email_rule[of "c_email joFields" joFields sampleEnv "annaFields ''2025-12-03''"]
    email_rule[of "js ''a@b.com''" joFields sampleEnv "annaFields ''2025-12-03''"] 1 2 3
  show ?thesis by simp
qed

text \<open>
  C9. The guests field is parsed as an integer. An entry that is white space, an optional
  sign, decimal digits and then anything that does not go on with a digit gives the
  number that the digits write, negative after a minus sign; what comes after the
  digits is dropped, and so are leading zeros. An entry without a digit in that place
  does not parse and gives 0, and so does a field that is absent or has no value. The
  guests rule fails validation with its message exactly when the number is below 10 or
  above 500.
\<close>

theorem guests_rule:
  "(list_all isWhiteSpace ws \<and> (sg = [] \<or> sg = [0x2B] \<or> sg = [0x2D]) \<and>
    (rest = [] \<or> \<not> isDigit (hd rest)) \<longrightarrow>
      (doc ''guests'' =
         Some \<lparr>el_value = Str (ws @ sg @ replicate z 0x30 @ decimal n @ rest)\<rparr> \<longrightarrow>
       readGuests doc = Inr (if sg = [0x2D] then - int n else int n)) \<and>
      ((sg = [] \<longrightarrow>
          rest = [] \<or> \<not> isWhiteSpace (hd rest) \<and> hd rest \<noteq> 0x2B \<and> hd rest \<noteq> 0x2D) \<and>
       doc ''guests'' = Some \<lparr>el_value = Str (ws @ sg @ rest)\<rparr> \<longrightarrow>
       readGuests doc = Inr 0)) \<and>
   (absent doc ''guests'' \<longrightarrow> readGuests doc = Inr 0) \<and>
   (readCatering doc = Inr g \<longrightarrow> readGuests doc = Inr (k_guests g)) \<and>
   (k_guests g < 10 \<or> k_guests g > 500 \<longrightarrow>
      msgGuests \<in> set (errors (cateringValidate env g)) \<and>
      \<not> isValid (cateringValidate env g)) \<and>
   (10 \<le> k_guests g \<and> k_guests g \<le> 500 \<longrightarrow>
      msgGuests \<notin> set (errors (cateringValidate env g)))"
proof -
  have parse: "list_all isWhiteSpace ws \<and> (sg = [] \<or> sg = [0x2B] \<or> sg = [0x2D]) \<and>
    (rest = [] \<or> \<not> isDigit (hd rest)) \<longrightarrow>
      (doc ''guests'' =
         Some \<lparr>el_value = Str (ws @ sg @ replicate z 0x30 @ decimal n @ rest)\<rparr> \<longrightarrow>
       readGuests doc = Inr (if sg = [0x2D] then - int n else int n)) \<and>
      ((sg = [] \<longrightarrow>
          rest = [] \<or> \<not> isWhiteSpace (hd rest) \<and> hd rest \<noteq> 0x2B \<and> hd rest \<noteq> 0x2D) \<and>
       doc ''guests'' = Some \<lparr>el_value = Str (ws @ sg @ rest)\<rparr> \<longrightarrow>
       readGuests doc = Inr 0)"
    using readGuests_integer[of ws sg rest doc z n] readGuests_failure[of ws sg rest doc]
    by blast
  have none: "absent doc ''guests'' \<longrightarrow> readGuests doc = Inr 0"
    using readGuests_absent by blast
  have d: "msgGuests \<notin> set (dateMessages env (k_date g))"
    using msg_distinct by (auto simp: dateMessages_def)
  have rule: "msgGuests \<in> set (errors (cateringValidate env g)) \<longleftrightarrow>
      k_guests g < 10 \<or> k_guests g > 500"
    unfolding cateringValidate_errors using msg_distinct d by auto
  have read: "readCatering doc = Inr g \<longrightarrow> readGuests doc = Inr (k_guests g)"
    using readCatering_guests[of doc g] by blast
  have fails: "k_guests g < 10 \<or> k_guests g > 500 \<longrightarrow>
      msgGuests \<in> set (errors (cateringValidate env g)) \<and>
      \<not> isValid (cateringValidate env g)"
    using rule by (auto simp: cateringValidate_isValid)
  have passes: "10 \<le> k_guests g \<and> k_guests g \<le> 500 \<longrightarrow>
      msgGuests \<notin> set (errors (cateringValidate env g))"
    using rule by auto
  show ?thesis
    by (rule conjI[OF parse conjI[OF none conjI[OF read conjI[OF fails passes]]]])
qed

text \<open>
  \<open>250\<close> is read as 250 and passes; \<open>+012 guests\<close> after two spaces is read as 12;
  \<open>-5\<close> is read as -5 and \<open>501\<close> as 501, and both fail; \<open>abc\<close> and \<open>ten\<close> after a
  minus sign do not parse and are read as 0, which fails; so is a field that is absent.
\<close>

theorem guests_rule_witness:
  "readGuests (guestsDocument (field ''250'')) = Inr 250 \<and>
   readCatering (guestsDocument (field ''250'')) = Inr (guestsFields 250) \<and>
   msgGuests \<notin> set (errors (cateringValidate sampleEnv (guestsFields 250))) \<and>
   readGuests (guestsDocument (field ''  +012 guests'')) = Inr 12 \<and>
   readGuests (guestsDocument (field ''-5'')) = Inr (- 5) \<and>
   msgGuests \<in> set (errors (cateringValidate sampleEnv (guestsFields (- 5)))) \<and>
   readGuests (guestsDocument (field ''501'')) = Inr 501 \<and>
   msgGuests \<in> set (errors (cateringValidate sampleEnv (guestsFields 501))) \<and>
   readGuests (guestsDocument (field ''abc'')) = Inr 0 \<and>
   readGuests (guestsDocument (field ''-ten'')) = Inr 0 \<and>
   readCatering (guestsDocument (field ''abc'')) = Inr (guestsFields 0) \<and>
   msgGuests \<in> set (errors (cateringValidate sampleEnv (guestsFields 0))) \<and>
   \<not> isValid (cateringValidate sampleEnv (guestsFields 0)) \<and>
   readGuests noDocument = Inr 0"
proof -
  have g: "guestsDocument (field s) ''guests'' = Some \<lparr>el_value = Str (js s)\<rparr>" for s
    by (simp add: guestsDocument_def field_def)
  have s: "js ''250'' = [] @ [] @ replicate 0 0x30 @ decimal 250 @ []"
    "js ''  +012 guests'' = js ''  '' @ [0x2B] @ replicate 1 0x30 @ decimal 12 @ js '' guests''"
    "js ''-5'' = [] @ [0x2D] @ replicate 0 0x30 @ decimal 5 @ []"
    "js ''501'' = [] @ [] @ replicate 0 0x30 @ decimal 501 @ []"
    "js ''abc'' = [] @ [] @ js ''abc''"
    "js ''-ten'' = [] @ [0x2D] @ js ''ten''"
    by (simp_all add: decimal_examples) (simp_all add: js_def)
  have c: "list_all isWhiteSpace []" "list_all isWhiteSpace (js ''  '')"
    "\<not> isDigit (hd (js '' guests''))" "\<not> isDigit (hd (js ''abc''))"
    "\<not> isWhiteSpace (hd (js ''abc''))" "hd (js ''abc'') \<noteq> 0x2B" "hd (js ''abc'') \<noteq> 0x2D"
    "\<not> isDigit (hd (js ''ten''))"
    by (simp_all add: char_simps)
  have k: "k_guests (guestsFields n) = n" for n
    by (simp add: guestsFields_def)
  have a: "absent noDocument ''guests''"
    by (simp add: absent_def noDocument_def)
  have 1: "readGuests (guestsDocument (field ''250'')) = Inr 250"
    using guests_rule[of "[]" "[]" "[]" "guestsDocument (field ''250'')" 0 250
        "guestsFields 250" sampleEnv] g[of "''250''"] c
    unfolding s(1)[symmetric] by simp
  have 2: "readGuests (guestsDocument (field ''  +012 guests'')) = Inr 12"
    using guests_rule[of "js ''  ''" "[0x2B]" "js '' guests''"
        "guestsDocument (field ''  +012 guests'')" 1 12 "guestsFields 12" sampleEnv]
      g[of "''  +012 guests''"] c
    unfolding s(2)[symmetric] by simp
  have 3: "readGuests (guestsDocument (field ''-5'')) = Inr (- 5)"
    using guests_rule[of "[]" "[0x2D]" "[]" "guestsDocument (field ''-5'')" 0 5
        "guestsFields (- 5)" sampleEnv] g[of "''-5''"] c
    unfolding s(3)[symmetric] by simp
  have 4: "readGuests (guestsDocument (field ''501'')) = Inr 501"
    using guests_rule[of "[]" "[]" "[]" "guestsDocument (field ''501'')" 0 501
        "guestsFields 501" sampleEnv] g[of "''501''"] c
    unfolding s(4)[symmetric] by simp
  have 5: "readGuests (guestsDocument (field ''abc'')) = Inr 0"
    using guests_rule[of "[]" "[]" "js ''abc''" "guestsDocument (field ''abc'')" 0 0
        "guestsFields 0" sampleEnv] g[of "''abc''"] c
    unfolding s(5)[symmetric] by simp
  have 6: "readGuests (guestsDocument (field ''-ten'')) = Inr 0"
    using guests_rule[of "[]" "[0x2D]" "js ''ten''" "guestsDocument (field ''-ten'')" 0 0
        "guestsFields 0" sampleEnv] g[of "''-ten''"] c
    unfolding s(6)[symmetric] by simp
  have 7: "msgGuests \<notin> set (errors (cateringValidate sampleEnv (guestsFields 250)))"
    "msgGuests \<in> set (errors (cateringValidate sampleEnv (guestsFields 501)))"
    "msgGuests \<in> set (errors (cateringValidate sampleEnv (guestsFields 0)))"
    "\<not> isValid (cateringValidate sampleEnv (guestsFields 0))"
    "msgGuests \<in> set (errors (cateringValidate sampleEnv (guestsFields (- 5))))"
    using guests_rule[of "[]" "[]" "[]" noDocument 0 0 "guestsFields 250" sampleEnv]
      guests_rule[of "[]" "[]" "[]" noDocument 0 0 "guestsFields 501" sampleEnv]
      guests_rule[of "[]" "[]" "[]" noDocument 0 0 "guestsFields (- 5)" sampleEnv]
      guests_rule[of "[]" "[]" "[]" noDocument 0 0 "guestsFields 0" sampleEnv]
    by (simp_all add: k)
  have 8: "readGuests noDocument = Inr 0"
    using guests_rule[of "[]" "[]" "[]" noDocument 0 0 "guestsFields 0" sampleEnv] a by simp
  show ?thesis
    using 1 2 3 4 5 6 7 8 readCatering_guestsDocument by simp
qed




end
